theory Spec2Isabelle
  imports Complex_Main
begin

section \<open>The content script: the port to the background script\<close>

text \<open>
  The content script keeps its state in module-level variables: \<^verbatim>\<open>port\<close>,
  \<^verbatim>\<open>reconnectAttempts\<close>, \<^verbatim>\<open>reconnectTimer\<close>, \<^verbatim>\<open>messageQueue\<close> and
  \<^verbatim>\<open>previousHand\<close>. They are the fields of one record, and every function of the
  script takes the record and returns it updated.

  A value read from a parsed JSON object is seen only through what the code asks of it:
  whether it is a string (and which), and whether it is truthy.
\<close>

datatype jsfield =
    JStr string   \<comment> \<open>a string; the empty string is the only falsy one\<close>
  | JFalsy        \<comment> \<open>undefined, null, 0, false, NaN\<close>
  | JTruthy       \<comment> \<open>any other value that is not a string: a number, true, an object, an array\<close>

fun truthy :: "jsfield \<Rightarrow> bool" where
  "truthy (JStr s) = (s \<noteq> [])"
| "truthy JFalsy = False"
| "truthy JTruthy = True"

text \<open>A hand whose four card fields passed the \<^verbatim>\<open>typeof ... === "string"\<close> checks.\<close>

record hand =
  value1 :: string
  suit1 :: string
  value2 :: string
  suit2 :: string
  url :: jsfield
  playerId :: jsfield
  playerName :: jsfield

text \<open>The \<^verbatim>\<open>data\<close> object of a HAND\_DATA message: the seven fields of the hand, copied,
  and \<^verbatim>\<open>timestamp: Date.now()\<close>.\<close>

record handData = hand +
  timestamp :: nat

text \<open>The object \<^verbatim>\<open>{type: "HAND_DATA", data: ...}\<close> handed to \<^verbatim>\<open>sendPortMessage\<close>.\<close>

datatype port_message = HAND_DATA handData

definition MESSAGE_QUEUE_CAP :: nat where
  "MESSAGE_QUEUE_CAP = 20"

definition RECONNECT_INTERVAL_MS :: rat where
  "RECONNECT_INTERVAL_MS = 2000"

definition MAX_RECONNECT_ATTEMPTS :: nat where
  "MAX_RECONNECT_ATTEMPTS = 50"

text \<open>
  \<^verbatim>\<open>port\<close> is a port object or null: the field says whether it is an object.
  \<^verbatim>\<open>reconnectTimer\<close> is a timer id or null: the field holds the delay the pending timer
  was started with, in milliseconds. \<^verbatim>\<open>posted\<close> is not a variable of the script: it logs
  the messages that \<^verbatim>\<open>port.postMessage\<close> accepted, in order, and \<^verbatim>\<open>checked\<close> logs the
  hands given to \<^verbatim>\<open>checkRange\<close>.
\<close>

record 'm channel =
  port :: bool
  reconnectAttempts :: nat
  reconnectTimer :: "rat option"
  messageQueue :: "'m list"
  previousHand :: "hand option"
  posted :: "'m list"
  checked :: "hand list"

text \<open>The variables as their declarations initialise them, before \<^verbatim>\<open>connectPort()\<close> is called.\<close>

definition initial_channel :: "'m channel" where
  "initial_channel =
     \<lparr>port = False, reconnectAttempts = 0, reconnectTimer = None, messageQueue = [],
      previousHand = None, posted = [], checked = []\<rparr>"

text \<open>
  \<^verbatim>\<open>Math.min(RECONNECT_INTERVAL_MS * Math.pow(1.5, reconnectAttempts - 1), 30000)\<close>,
  with \<open>n\<close> the value of \<^verbatim>\<open>reconnectAttempts\<close> after the increment. The numbers are
  rationals: below the ceiling (\<open>k \<le> 6\<close>) the number \<open>2000 * 1.5 ^ k\<close> has at most two
  binary places, so it is the double the script computes, and from \<open>k = 7\<close> on the
  minimum is the ceiling.
\<close>

definition reconnect_delay :: "nat \<Rightarrow> rat" where
  "reconnect_delay n = min (RECONNECT_INTERVAL_MS * (3 / 2) ^ (n - 1)) 30000"

definition scheduleReconnect :: "'m channel \<Rightarrow> 'm channel" where
  "scheduleReconnect st =
     (if reconnectTimer st \<noteq> None then st
      else if reconnectAttempts st \<ge> MAX_RECONNECT_ATTEMPTS then st
      else (let n = reconnectAttempts st + 1
            in st\<lparr>reconnectAttempts := n, reconnectTimer := Some (reconnect_delay n)\<rparr>))"

text \<open>\<^verbatim>\<open>messageQueue.push(msg); if (messageQueue.length > MESSAGE_QUEUE_CAP) messageQueue.shift();\<close>\<close>

definition enqueueMessage :: "'m channel \<Rightarrow> 'm \<Rightarrow> 'm channel" where
  "enqueueMessage st msg =
     (let q = messageQueue st @ [msg]
      in st\<lparr>messageQueue := (if length q > MESSAGE_QUEUE_CAP then tl q else q)\<rparr>)"

text \<open>
  The loop of \<^verbatim>\<open>flushMessageQueue\<close>. Nothing in the loop assigns \<^verbatim>\<open>port\<close>, so the test
  \<^verbatim>\<open>messageQueue.length > 0 && port\<close> is decided by the queue once the port is there.
  Whether \<^verbatim>\<open>port.postMessage\<close> throws is the environment's choice: \<open>post_ok k\<close> says
  whether the call number \<open>k\<close> of this flush (from 0) returns. The result is the queue
  left and the log of posted messages.
\<close>

fun flush_loop :: "(nat \<Rightarrow> bool) \<Rightarrow> nat \<Rightarrow> 'm list \<Rightarrow> 'm list \<Rightarrow> 'm list \<times> 'm list" where
  "flush_loop post_ok k [] out = ([], out)"
| "flush_loop post_ok k (msg # q) out =
     (if post_ok k then flush_loop post_ok (Suc k) q (out @ [msg])
      else (msg # q, out))"

definition flushMessageQueue :: "(nat \<Rightarrow> bool) \<Rightarrow> 'm channel \<Rightarrow> 'm channel" where
  "flushMessageQueue post_ok st =
     (if port st
      then (case flush_loop post_ok 0 (messageQueue st) (posted st) of
              (q, out) \<Rightarrow> st\<lparr>messageQueue := q, posted := out\<rparr>)
      else st)"

text \<open>
  \<^verbatim>\<open>sendPortMessage\<close> returns true when the message was posted and false when it was
  queued. \<open>post_ok\<close> says whether \<^verbatim>\<open>port.postMessage\<close> returns.
\<close>

definition queue_and_reconnect :: "'m channel \<Rightarrow> 'm \<Rightarrow> 'm channel" where
  "queue_and_reconnect st msg =
     (let st1 = enqueueMessage st msg
      in if reconnectTimer st1 = None then scheduleReconnect st1 else st1)"

definition sendPortMessage :: "bool \<Rightarrow> 'm channel \<Rightarrow> 'm \<Rightarrow> 'm channel \<times> bool" where
  "sendPortMessage post_ok st msg =
     (if port st
      then (if post_ok then (st\<lparr>posted := posted st @ [msg]\<rparr>, True)
            else (queue_and_reconnect (st\<lparr>port := False\<rparr>) msg, False))
      else (queue_and_reconnect st msg, False))"

text \<open>
  \<^verbatim>\<open>connectPort\<close>: \<open>runtime_ok\<close> is the test \<^verbatim>\<open>chrome && chrome.runtime && chrome.runtime.id\<close>,
  \<open>connect_ok\<close> says whether the body of the \<^verbatim>\<open>try\<close> runs without throwing.
\<close>

definition connectPort :: "bool \<Rightarrow> bool \<Rightarrow> (nat \<Rightarrow> bool) \<Rightarrow> 'm channel \<Rightarrow> 'm channel \<times> bool" where
  "connectPort runtime_ok connect_ok post_ok st =
     (if \<not> runtime_ok then (st, False)
      else if \<not> connect_ok then (st\<lparr>port := False\<rparr>, False)
      else (flushMessageQueue post_ok
              (st\<lparr>port := True, reconnectAttempts := 0, reconnectTimer := None\<rparr>), True))"

text \<open>The \<^verbatim>\<open>onDisconnect\<close> listener of the port, and the callback of the reconnect timer.\<close>

definition onDisconnect :: "'m channel \<Rightarrow> 'm channel" where
  "onDisconnect st = scheduleReconnect (st\<lparr>port := False\<rparr>)"

definition reconnect_timer_fired ::
  "bool \<Rightarrow> bool \<Rightarrow> (nat \<Rightarrow> bool) \<Rightarrow> 'm channel \<Rightarrow> 'm channel" where
  "reconnect_timer_fired runtime_ok connect_ok post_ok st =
     fst (connectPort runtime_ok connect_ok post_ok (st\<lparr>reconnectTimer := None\<rparr>))"

subsection \<open>Duplicate suppression and the window message listener\<close>

text \<open>
  \<^verbatim>\<open>compareHands(hand1, hand2)\<close>: an absent argument (\<^verbatim>\<open>undefined\<close>) is \<open>None\<close>. The fields
  compared are strings, on which \<^verbatim>\<open>==\<close> is equality.
\<close>

definition compareHands :: "hand option \<Rightarrow> hand option \<Rightarrow> bool" where
  "compareHands hand1 hand2 =
     (case (hand1, hand2) of
        (Some h1, Some h2) \<Rightarrow>
          (if value1 h1 = value1 h2 \<and> suit1 h1 = suit1 h2
           then (if value2 h1 = value2 h2 \<and> suit2 h1 = suit2 h2 then True else False)
           else False)
      | _ \<Rightarrow> False)"

text \<open>
  What \<^verbatim>\<open>JSON.parse(event.data.text)\<close> gives: it throws, or returns a value that is not an
  object (or null), or an object, of which the listener reads seven fields.
\<close>

record parsed_object =
  p_value1 :: jsfield
  p_suit1 :: jsfield
  p_value2 :: jsfield
  p_suit2 :: jsfield
  p_url :: jsfield
  p_playerId :: jsfield
  p_playerName :: jsfield

datatype parsed = ParseThrows | NotObject | Object parsed_object

text \<open>The four \<^verbatim>\<open>typeof ... !== "string"\<close> checks of the listener.\<close>

definition validate_hand :: "parsed_object \<Rightarrow> hand option" where
  "validate_hand p =
     (case (p_value1 p, p_suit1 p, p_value2 p, p_suit2 p) of
        (JStr v1, JStr s1, JStr v2, JStr s2) \<Rightarrow>
          Some \<lparr>value1 = v1, suit1 = s1, value2 = v2, suit2 = s2,
                url = p_url p, playerId = p_playerId p, playerName = p_playerName p\<rparr>
      | _ \<Rightarrow> None)"

text \<open>
  A message event: whether \<^verbatim>\<open>event.source\<close> is the window, \<^verbatim>\<open>event.data.type\<close> (a string,
  empty when absent) and \<^verbatim>\<open>event.data.text\<close>.
\<close>

record message_event =
  from_window :: bool
  data_type :: string
  data_text :: jsfield

text \<open>
  The listener. \<open>json_parse\<close> is \<^verbatim>\<open>JSON.parse\<close>, \<open>now\<close> is \<^verbatim>\<open>Date.now()\<close>, \<open>post_ok\<close> is
  the outcome of \<^verbatim>\<open>port.postMessage\<close> should \<^verbatim>\<open>sendPortMessage\<close> call it.
  \<^verbatim>\<open>previousHand = hand\<close> is reached only by a hand that passed every check.
\<close>

definition hand_data_of :: "hand \<Rightarrow> nat \<Rightarrow> handData" where
  "hand_data_of h now = hand.extend h \<lparr>timestamp = now\<rparr>"

definition on_window_message ::
  "(string \<Rightarrow> parsed) \<Rightarrow> nat \<Rightarrow> bool \<Rightarrow> port_message channel \<Rightarrow> message_event
     \<Rightarrow> port_message channel" where
  "on_window_message json_parse now post_ok st ev =
     (if \<not> from_window ev then st
      else if data_type ev \<noteq> ''FROM_PAGE'' then st
      else (case data_text ev of
              JStr text \<Rightarrow>
                (if text = [] then st
                 else (case json_parse text of
                         Object p \<Rightarrow>
                           (case validate_hand p of
                              None \<Rightarrow> st
                            | Some h \<Rightarrow>
                                (let st1 =
                                   (if \<not> compareHands (Some h) (previousHand st)
                                    then fst (sendPortMessage post_ok
                                                (st\<lparr>checked := checked st @ [h]\<rparr>)
                                                (HAND_DATA (hand_data_of h now)))
                                    else st)
                                 in st1\<lparr>previousHand := Some h\<rparr>))
                       | _ \<Rightarrow> st))
            | _ \<Rightarrow> st))"

section \<open>The background script: the hub publisher\<close>

definition MAX_RETRIES :: nat where
  "MAX_RETRIES = 100"

definition INITIAL_BACKOFF_MS :: nat where
  "INITIAL_BACKOFF_MS = 1000"

definition MAX_BACKOFF_MS :: nat where
  "MAX_BACKOFF_MS = 10000"

definition AUTH_ERROR_BACKOFF_MS :: nat where
  "AUTH_ERROR_BACKOFF_MS = 60000"

definition QUEUE_CAP :: nat where
  "QUEUE_CAP = 100"

definition RETRY_ALARM_NAME :: string where
  "RETRY_ALARM_NAME = ''hub-retry''"

subsection \<open>Publisher identities\<close>

text \<open>
  \<^verbatim>\<open>generateUUID\<close> replaces every \<^verbatim>\<open>x\<close> and \<^verbatim>\<open>y\<close> of the template, from left to right,
  by a hexadecimal digit made from \<^verbatim>\<open>r = Math.random() * 16 | 0\<close>. The random source is
  a parameter: \<open>rnd k mod 16\<close> is the \<open>r\<close> of the replacement number \<open>k\<close>. For \<^verbatim>\<open>y\<close> the
  digit is \<^verbatim>\<open>r & 0x3 | 0x8\<close>, that is \<open>r mod 4 + 8\<close>.
\<close>

definition hex_digit :: "nat \<Rightarrow> char" where
  "hex_digit n = ''0123456789abcdef'' ! (n mod 16)"

fun uuid_fill :: "(nat \<Rightarrow> nat) \<Rightarrow> nat \<Rightarrow> string \<Rightarrow> string" where
  "uuid_fill rnd k [] = []"
| "uuid_fill rnd k (c # cs) =
     (if c = CHR ''x'' then hex_digit (rnd k mod 16) # uuid_fill rnd (Suc k) cs
      else if c = CHR ''y'' then hex_digit ((rnd k mod 16) mod 4 + 8) # uuid_fill rnd (Suc k) cs
      else c # uuid_fill rnd k cs)"

definition generateUUID :: "(nat \<Rightarrow> nat) \<Rightarrow> string" where
  "generateUUID rnd = uuid_fill rnd 0 ''xxxxxxxx-xxxx-4xxx-yxxx-xxxxxxxxxxxx''"

text \<open>
  The object stored under \<^verbatim>\<open>publisherIds\<close> is a plain object, a map from room to
  identity given by its own properties; the absent object (\<^verbatim>\<open>result.publisherIds || {}\<close>)
  is the empty map. Reading \<^verbatim>\<open>publisherIds[roomId]\<close> gives the own property if there is
  one; otherwise, for the names of the members of \<^verbatim>\<open>Object.prototype\<close>, the inherited
  member, a function or (for \<^verbatim>\<open>__proto__\<close>) an object, which is truthy and not a string;
  otherwise \<^verbatim>\<open>undefined\<close>.
\<close>

definition object_prototype_members :: "string list" where
  "object_prototype_members =
     [''constructor'', ''__defineGetter__'', ''__defineSetter__'', ''hasOwnProperty'',
      ''__lookupGetter__'', ''__lookupSetter__'', ''isPrototypeOf'', ''propertyIsEnumerable'',
      ''toString'', ''valueOf'', ''__proto__'', ''toLocaleString'']"

definition get_property :: "(string \<rightharpoonup> string) \<Rightarrow> string \<Rightarrow> jsfield" where
  "get_property obj key =
     (case obj key of
        Some u \<Rightarrow> JStr u
      | None \<Rightarrow> (if key \<in> set object_prototype_members then JTruthy else JFalsy))"

text \<open>
  \<^verbatim>\<open>chrome.storage.local.get\<close> hands its callback a copy of what is stored. The callback
  of \<^verbatim>\<open>getPublisherId\<close>, on that copy: the value it resolves to and the map it writes
  back with \<^verbatim>\<open>chrome.storage.local.set\<close>, if it writes. \<open>fresh\<close> is the result
  \<^verbatim>\<open>generateUUID()\<close> would give.
\<close>

definition publisherId_callback ::
  "(string \<rightharpoonup> string) \<Rightarrow> string \<Rightarrow> string \<Rightarrow> jsfield \<times> (string \<rightharpoonup> string) option" where
  "publisherId_callback snapshot roomId fresh =
     (if \<not> truthy (get_property snapshot roomId)
      then (let publisherIds' = snapshot(roomId \<mapsto> fresh)
            in (get_property publisherIds' roomId, Some publisherIds'))
      else (get_property snapshot roomId, None))"

subsection \<open>The token service\<close>

text \<open>
  What \<^verbatim>\<open>fetch\<close> and \<^verbatim>\<open>response.json()\<close> give: a response with its status and the
  \<^verbatim>\<open>token\<close> field of its body, or an exception.
\<close>

datatype http_outcome = Response nat "string option" | FetchThrows

record tokenResult =
  token :: "string option"
  isAuthError :: bool

definition fetchHubToken :: "http_outcome \<Rightarrow> tokenResult" where
  "fetchHubToken out =
     (case out of
        Response status tok \<Rightarrow>
          (if 200 \<le> status \<and> status \<le> 299 then \<lparr>token = tok, isAuthError = False\<rparr>
           else if status = 401 then \<lparr>token = None, isAuthError = True\<rparr>
           else \<lparr>token = None, isAuthError = False\<rparr>)
      | FetchThrows \<Rightarrow> \<lparr>token = None, isAuthError = False\<rparr>)"

subsection \<open>Room extraction\<close>

text \<open>\<^verbatim>\<open>s.split(c)\<close> for a separator of one character: never empty.\<close>

fun split_on :: "char \<Rightarrow> string \<Rightarrow> string list" where
  "split_on c [] = [[]]"
| "split_on c (x # xs) =
     (if x = c then [] # split_on c xs
      else (case split_on c xs of
              seg # segs \<Rightarrow> (x # seg) # segs
            | [] \<Rightarrow> [[x]]))"

text \<open>\<^verbatim>\<open>s.replace(/\/$/, '')\<close>: one slash at the very end of the string is removed.\<close>

definition strip_trailing_slash :: "string \<Rightarrow> string" where
  "strip_trailing_slash s = (if s \<noteq> [] \<and> last s = CHR ''/'' then butlast s else s)"

text \<open>
  \<^verbatim>\<open>s.trim()\<close>. A character stands for a code unit below 256; the white space and line
  terminators of JavaScript in that range are the code units 9 to 13, 32 and 160.
\<close>

definition js_space :: "char \<Rightarrow> bool" where
  "js_space c = (of_char c \<in> {9, 10, 11, 12, 13, 32, 160 :: nat})"

definition trim :: "string \<Rightarrow> string" where
  "trim s = rev (dropWhile js_space (rev (dropWhile js_space s)))"

text \<open>
  \<^verbatim>\<open>extractRoomFromUrl\<close>. On a value that is not a string \<^verbatim>\<open>url.split\<close> is not a
  function, the call throws and the \<^verbatim>\<open>catch\<close> returns null.
\<close>

definition extractRoomFromUrl :: "jsfield \<Rightarrow> string option" where
  "extractRoomFromUrl u =
     (case u of
        JStr s \<Rightarrow>
          (let cleanUrl = strip_trailing_slash
                            (hd (split_on (CHR ''#'') (hd (split_on (CHR ''?'') s))));
               segments = split_on (CHR ''/'') cleanUrl;
               lastSegment = last segments
           in if lastSegment \<noteq> [] \<and> trim lastSegment \<noteq> [] then Some lastSegment else None)
      | _ \<Rightarrow> None)"

subsection \<open>The publisher and its environment\<close>

datatype readyState = CONNECTING | OPEN | CLOSING | CLOSED

text \<open>
  A WebSocket object: the room and token of its URL, its \<^verbatim>\<open>readyState\<close>, whether its
  \<^verbatim>\<open>onclose\<close> handler is still attached (\<^verbatim>\<open>disconnect\<close> sets it to null), and the
  strings that \<^verbatim>\<open>send\<close> accepted, in order.
\<close>

record socket =
  sock_room :: string
  sock_token :: string
  readyState :: readyState
  onclose :: bool
  written :: "string list"

text \<open>
  The fields of \<^verbatim>\<open>HubPublisher\<close>, followed by the environment it acts on: every socket
  created so far (\<^verbatim>\<open>this.ws\<close> is the index of one of them, or null), the alarm
  \<^verbatim>\<open>"hub-retry"\<close> of \<^verbatim>\<open>chrome.alarms\<close> (the backoff it was created with, in milliseconds,
  or none) and the stored identities.
\<close>

record 'm publisher =
  ws :: "nat option"
  queue :: "'m list"
  retryCount :: nat
  currentRoom :: "string option"
  isConnecting :: bool
  authErrorBackoff :: bool
  sockets :: "socket list"
  alarm :: "nat option"
  publisherIds :: "string \<rightharpoonup> string"

definition new_publisher :: "'m publisher" where
  "new_publisher =
     \<lparr>ws = None, queue = [], retryCount = 0, currentRoom = None, isConnecting = False,
      authErrorBackoff = False, sockets = [], alarm = None, publisherIds = Map.empty\<rparr>"

text \<open>\<^verbatim>\<open>this.ws.readyState\<close>, when \<^verbatim>\<open>this.ws\<close> is a socket.\<close>

definition ws_state :: "'m publisher \<Rightarrow> readyState option" where
  "ws_state w =
     (case ws w of
        None \<Rightarrow> None
      | Some i \<Rightarrow> (if i < length (sockets w) then Some (readyState (sockets w ! i)) else None))"

text \<open>
  \<^verbatim>\<open>getPublisherId\<close> when nothing else touches the storage between its read and its
  write: the value it resolves to and the state after.
\<close>

definition getPublisherId :: "(nat \<Rightarrow> nat) \<Rightarrow> 'm publisher \<Rightarrow> string \<Rightarrow> jsfield \<times> 'm publisher" where
  "getPublisherId rnd w roomId =
     (case publisherId_callback (publisherIds w) roomId (generateUUID rnd) of
        (u, None) \<Rightarrow> (u, w)
      | (u, Some m) \<Rightarrow> (u, w\<lparr>publisherIds := m\<rparr>))"

text \<open>
  Two calls of \<^verbatim>\<open>getPublisherId\<close> whose reads of the storage both come before either
  callback runs, as when \<^verbatim>\<open>handleHandData\<close> calls \<^verbatim>\<open>connect(roomId)\<close>, which calls
  \<^verbatim>\<open>getPublisherId(roomId)\<close>, and then calls \<^verbatim>\<open>getPublisherId(roomId)\<close> itself: both
  callbacks get a copy of the same stored map, and their writes are applied in order.
\<close>

definition getPublisherId_overlapping ::
  "(nat \<Rightarrow> nat) \<Rightarrow> (nat \<Rightarrow> nat) \<Rightarrow> 'm publisher \<Rightarrow> string \<Rightarrow> string
     \<Rightarrow> (jsfield \<times> jsfield) \<times> 'm publisher" where
  "getPublisherId_overlapping rnd1 rnd2 w room1 room2 =
     (let snapshot = publisherIds w;
          r1 = publisherId_callback snapshot room1 (generateUUID rnd1);
          r2 = publisherId_callback snapshot room2 (generateUUID rnd2);
          stored = (case snd r2 of
                      Some m \<Rightarrow> m
                    | None \<Rightarrow> (case snd r1 of Some m \<Rightarrow> m | None \<Rightarrow> snapshot))
      in ((fst r1, fst r2), w\<lparr>publisherIds := stored\<rparr>))"

definition clearRetryAlarm :: "'m publisher \<Rightarrow> 'm publisher" where
  "clearRetryAlarm w = w\<lparr>alarm := None\<rparr>"

text \<open>\<^verbatim>\<open>Math.min(INITIAL_BACKOFF_MS * Math.pow(2, this.retryCount - 1), MAX_BACKOFF_MS)\<close>,
  with \<open>n\<close> the value of \<^verbatim>\<open>retryCount\<close> after the increment.\<close>

definition retry_backoff :: "nat \<Rightarrow> nat" where
  "retry_backoff n = min (INITIAL_BACKOFF_MS * 2 ^ (n - 1)) MAX_BACKOFF_MS"

text \<open>\<^verbatim>\<open>scheduleRetry(roomId, overrideBackoff = null)\<close>; the body never reads \<^verbatim>\<open>roomId\<close>.\<close>

definition scheduleRetry :: "'m publisher \<Rightarrow> string \<Rightarrow> nat option \<Rightarrow> 'm publisher" where
  "scheduleRetry w roomId overrideBackoff =
     (if retryCount w \<ge> MAX_RETRIES then clearRetryAlarm w
      else (let w1 = clearRetryAlarm w;
                w2 = w1\<lparr>retryCount := retryCount w1 + 1\<rparr>;
                backoff = (case overrideBackoff of
                             Some b \<Rightarrow> b
                           | None \<Rightarrow> retry_backoff (retryCount w2))
            in w2\<lparr>alarm := Some backoff\<rparr>))"

text \<open>\<^verbatim>\<open>socket.close()\<close>: a connecting or open socket starts closing.\<close>

definition close_socket :: "socket \<Rightarrow> socket" where
  "close_socket s =
     (if readyState s = CONNECTING \<or> readyState s = OPEN then s\<lparr>readyState := CLOSING\<rparr> else s)"

definition disconnect :: "'m publisher \<Rightarrow> 'm publisher" where
  "disconnect w =
     (let w1 = clearRetryAlarm w;
          w2 = (case ws w1 of
                  None \<Rightarrow> w1
                | Some i \<Rightarrow>
                    w1\<lparr>sockets := (sockets w1)[i := close_socket ((sockets w1 ! i)\<lparr>onclose := False\<rparr>)],
                       ws := None\<rparr>)
      in w2\<lparr>isConnecting := False\<rparr>)"

text \<open>
  \<^verbatim>\<open>connect(roomId)\<close> is an \<^verbatim>\<open>async\<close> function. It runs without interruption up to its
  first \<^verbatim>\<open>await\<close>; \<open>connect_start\<close> is that part, and says whether the \<^verbatim>\<open>await\<close> was
  reached. The rest runs later, when the identity and the token are there:
  \<open>connect_resume\<close>, on the state of that moment; what \<^verbatim>\<open>getPublisherId\<close> does to the
  storage in between is \<open>getPublisherId\<close> above. The empty string is the falsy room.
\<close>

definition connect_start :: "'m publisher \<Rightarrow> string \<Rightarrow> 'm publisher \<times> bool" where
  "connect_start w roomId =
     (if roomId = [] then (w, False)
      else if currentRoom w = Some roomId \<and> ws_state w = Some OPEN then (w, False)
      else (let w1 = (if currentRoom w \<noteq> Some roomId
                      then (disconnect w)\<lparr>currentRoom := Some roomId, retryCount := 0,
                                          authErrorBackoff := False\<rparr>
                      else w)
            in if isConnecting w1 then (w1, False)
               else if ws_state w1 = Some CONNECTING \<or> ws_state w1 = Some OPEN then (w1, False)
               else (clearRetryAlarm (w1\<lparr>isConnecting := True\<rparr>), True)))"

definition falsy_token :: "tokenResult \<Rightarrow> bool" where
  "falsy_token tr = (case token tr of None \<Rightarrow> True | Some t \<Rightarrow> t = [])"

text \<open>\<open>socket_ok\<close> says whether \<^verbatim>\<open>new WebSocket(wsUrl)\<close> returns; if it throws, the
  \<^verbatim>\<open>catch\<close> of \<^verbatim>\<open>connect\<close> runs.\<close>

definition connect_resume :: "bool \<Rightarrow> 'm publisher \<Rightarrow> string \<Rightarrow> tokenResult \<Rightarrow> 'm publisher" where
  "connect_resume socket_ok w roomId tr =
     (if falsy_token tr
      then (let w1 = w\<lparr>isConnecting := False\<rparr>
            in if isAuthError tr
               then scheduleRetry (w1\<lparr>authErrorBackoff := True\<rparr>) roomId (Some AUTH_ERROR_BACKOFF_MS)
               else scheduleRetry w1 roomId None)
      else (let w1 = w\<lparr>authErrorBackoff := False\<rparr>
            in if socket_ok
               then w1\<lparr>sockets := sockets w1 @
                                     [\<lparr>sock_room = roomId, sock_token = the (token tr),
                                       readyState = CONNECTING, onclose = True, written = []\<rparr>],
                        ws := Some (length (sockets w1))\<rparr>
               else scheduleRetry (w1\<lparr>isConnecting := False\<rparr>) roomId None))"

text \<open>The \<^verbatim>\<open>catch\<close> of \<^verbatim>\<open>connect\<close> when \<^verbatim>\<open>getPublisherId\<close> rejects.\<close>

definition connect_rejected :: "'m publisher \<Rightarrow> string \<Rightarrow> 'm publisher" where
  "connect_rejected w roomId = scheduleRetry (w\<lparr>isConnecting := False\<rparr>) roomId None"

subsection \<open>Publishing, the queue and the flush\<close>

definition enqueue :: "'m publisher \<Rightarrow> 'm \<Rightarrow> 'm publisher" where
  "enqueue w message =
     (let q = queue w @ [message]
      in w\<lparr>queue := (if length q > QUEUE_CAP then tl q else q)\<rparr>)"

text \<open>\<^verbatim>\<open>this.ws.send(msgStr)\<close> on the socket \<^verbatim>\<open>this.ws\<close>, when it returns.\<close>

definition ws_send :: "'m publisher \<Rightarrow> string \<Rightarrow> 'm publisher" where
  "ws_send w msgStr =
     (case ws w of
        None \<Rightarrow> w
      | Some i \<Rightarrow> w\<lparr>sockets := (sockets w)[i := (sockets w ! i)\<lparr>written := written (sockets w ! i) @ [msgStr]\<rparr>]\<rparr>)"

text \<open>
  \<^verbatim>\<open>publish(message)\<close>. \<open>stringify\<close> is \<^verbatim>\<open>JSON.stringify\<close>, \<open>None\<close> when it throws;
  \<open>send_ok\<close> says whether \<^verbatim>\<open>this.ws.send\<close> returns. \<^verbatim>\<open>JSON.stringify\<close> is called in the
  outer \<^verbatim>\<open>try\<close>, whose \<^verbatim>\<open>catch\<close> is empty.
\<close>

definition publish :: "('m \<Rightarrow> string option) \<Rightarrow> bool \<Rightarrow> 'm publisher \<Rightarrow> 'm \<Rightarrow> 'm publisher" where
  "publish stringify send_ok w message =
     (case stringify message of
        None \<Rightarrow> w
      | Some msgStr \<Rightarrow>
          (if ws_state w = Some OPEN
           then (if send_ok then ws_send w msgStr else enqueue w message)
           else enqueue w message))"

text \<open>
  The loop of \<^verbatim>\<open>flushQueue\<close>. Nothing in the loop assigns \<^verbatim>\<open>this.ws\<close> or changes its
  \<^verbatim>\<open>readyState\<close>, so once the socket is open the test of the loop is decided by the
  queue. \<open>send_ok k\<close> says whether the call number \<open>k\<close> of \<^verbatim>\<open>this.ws.send\<close> in this flush
  (from 0) returns. The result is the queue left and the strings sent, in order.
\<close>

fun flushQueue_loop ::
  "('m \<Rightarrow> string option) \<Rightarrow> (nat \<Rightarrow> bool) \<Rightarrow> nat \<Rightarrow> 'm list \<Rightarrow> string list \<Rightarrow> 'm list \<times> string list" where
  "flushQueue_loop stringify send_ok k [] out = ([], out)"
| "flushQueue_loop stringify send_ok k (message # q) out =
     (case stringify message of
        None \<Rightarrow> (message # q, out)
      | Some msgStr \<Rightarrow>
          (if send_ok k then flushQueue_loop stringify send_ok (Suc k) q (out @ [msgStr])
           else (message # q, out)))"

definition flushQueue :: "('m \<Rightarrow> string option) \<Rightarrow> (nat \<Rightarrow> bool) \<Rightarrow> 'm publisher \<Rightarrow> 'm publisher" where
  "flushQueue stringify send_ok w =
     (if ws_state w = Some OPEN
      then (case flushQueue_loop stringify send_ok 0 (queue w) [] of
              (q, out) \<Rightarrow>
                (let i = the (ws w)
                 in w\<lparr>queue := q,
                      sockets := (sockets w)[i := (sockets w ! i)\<lparr>written := written (sockets w ! i) @ out\<rparr>]\<rparr>))
      else w)"

subsection \<open>Socket events and the alarm\<close>

text \<open>
  The \<^verbatim>\<open>open\<close> event of the socket \<open>i\<close>, which only a connecting socket receives, runs
  \<^verbatim>\<open>onopen\<close>. The \<^verbatim>\<open>close\<close> event runs \<^verbatim>\<open>onclose\<close> if it is still attached. The
  \<^verbatim>\<open>onerror\<close> handler is empty; the browser fires \<^verbatim>\<open>close\<close> after \<^verbatim>\<open>error\<close>.
\<close>

definition socket_open ::
  "('m \<Rightarrow> string option) \<Rightarrow> (nat \<Rightarrow> bool) \<Rightarrow> 'm publisher \<Rightarrow> nat \<Rightarrow> 'm publisher" where
  "socket_open stringify send_ok w i =
     (if i < length (sockets w) \<and> readyState (sockets w ! i) = CONNECTING
      then (let w1 = w\<lparr>sockets := (sockets w)[i := (sockets w ! i)\<lparr>readyState := OPEN\<rparr>]\<rparr>
            in flushQueue stringify send_ok (w1\<lparr>isConnecting := False, retryCount := 0\<rparr>))
      else w)"

definition socket_close :: "'m publisher \<Rightarrow> nat \<Rightarrow> 'm publisher" where
  "socket_close w i =
     (if i < length (sockets w) \<and> readyState (sockets w ! i) \<noteq> CLOSED
      then (let s = sockets w ! i;
                w1 = w\<lparr>sockets := (sockets w)[i := s\<lparr>readyState := CLOSED\<rparr>]\<rparr>
            in if onclose s
               then scheduleRetry (w1\<lparr>isConnecting := False, ws := None\<rparr>) (sock_room s) None
               else w1)
      else w)"

definition onerror :: "'m publisher \<Rightarrow> 'm publisher" where
  "onerror w = w"

definition socket_error :: "'m publisher \<Rightarrow> nat \<Rightarrow> 'm publisher" where
  "socket_error w i = socket_close (onerror w) i"

text \<open>The \<^verbatim>\<open>onAlarm\<close> listener; an alarm that fires is gone from \<^verbatim>\<open>chrome.alarms\<close>.\<close>

definition onAlarm :: "'m publisher \<Rightarrow> string \<Rightarrow> 'm publisher \<times> bool" where
  "onAlarm w name =
     (if name = RETRY_ALARM_NAME
      then (let w0 = w\<lparr>alarm := None\<rparr>
            in case currentRoom w0 of
                 None \<Rightarrow> (w0, False)
               | Some r \<Rightarrow> connect_start w0 r)
      else (w, False))"

subsection \<open>Incoming hands\<close>

text \<open>The object built by \<^verbatim>\<open>publishMessage\<close>; \<^verbatim>\<open>v || null\<close> turns a falsy value into null.
  \<^verbatim>\<open>publisherId\<close> is what \<^verbatim>\<open>getPublisherId\<close> resolved to or, in the \<^verbatim>\<open>catch\<close>, a new UUID.\<close>

record envelope =
  env_type :: string
  publisherId :: jsfield
  pokerNowPlayerId :: jsfield
  env_playerName :: jsfield
  env_data :: handData
  env_timestamp :: nat

definition or_null :: "jsfield \<Rightarrow> jsfield" where
  "or_null v = (if truthy v then v else JFalsy)"

definition make_envelope :: "handData \<Rightarrow> jsfield \<Rightarrow> nat \<Rightarrow> envelope" where
  "make_envelope d pid now =
     \<lparr>env_type = ''hand'', publisherId = pid, pokerNowPlayerId = or_null (playerId d),
      env_playerName = or_null (playerName d), env_data = d, env_timestamp = now\<rparr>"

text \<open>
  What \<^verbatim>\<open>handleHandData\<close> leaves pending when it returns: the rest of \<^verbatim>\<open>connect\<close>, and
  the \<^verbatim>\<open>then\<close> of \<^verbatim>\<open>getPublisherId\<close>, which builds the envelope and publishes it.
\<close>

datatype pending = ConnectPending string | PublishPending string handData

definition handleHandData :: "envelope publisher \<Rightarrow> handData \<Rightarrow> envelope publisher \<times> pending list" where
  "handleHandData w d =
     (if \<not> truthy (url d) then (w, [])
      else (case extractRoomFromUrl (url d) of
              None \<Rightarrow> (w, [])
            | Some roomId \<Rightarrow>
                (case connect_start w roomId of
                   (w1, reached) \<Rightarrow>
                     (w1, (if reached then [ConnectPending roomId] else [])
                          @ [PublishPending roomId d]))))"

definition publishMessage ::
  "(envelope \<Rightarrow> string option) \<Rightarrow> bool \<Rightarrow> nat \<Rightarrow> envelope publisher \<Rightarrow> handData \<Rightarrow> jsfield
     \<Rightarrow> envelope publisher" where
  "publishMessage stringify send_ok now w d pid =
     publish stringify send_ok w (make_envelope d pid now)"

subsection \<open>The event loop\<close>

text \<open>
  The background script reacts to one event at a time. Between two events the state of
  the system is the publisher with its environment, and the rooms of the calls of
  \<^verbatim>\<open>connect\<close> that are waiting at their \<^verbatim>\<open>await\<close>, oldest first. The events:
  a call of \<^verbatim>\<open>connect(roomId)\<close>; the waiting call number \<open>k\<close> resumes with a token
  result (and with whether \<^verbatim>\<open>new WebSocket\<close> returns), or with a rejection of
  \<^verbatim>\<open>getPublisherId\<close>; the \<^verbatim>\<open>open\<close> event of a socket (with the outcomes of the calls of
  \<^verbatim>\<open>send\<close> in the flush); the \<^verbatim>\<open>close\<close> event of a socket; the \<^verbatim>\<open>error\<close> event of a
  socket, with the \<^verbatim>\<open>close\<close> event that follows it; the alarm fires, if there is one;
  a call of \<^verbatim>\<open>publish\<close> (with the outcome of \<^verbatim>\<open>send\<close>).
\<close>

datatype 'm event =
    Connect string
  | TokenArrives nat tokenResult bool
  | IdentityRejected nat
  | SocketOpens nat "nat \<Rightarrow> bool"
  | SocketCloses nat
  | SocketErrors nat
  | AlarmFires
  | Publish 'm bool

fun step ::
  "('m \<Rightarrow> string option) \<Rightarrow> 'm publisher \<times> string list \<Rightarrow> 'm event
     \<Rightarrow> 'm publisher \<times> string list" where
  "step stringify (w, waiting) (Connect roomId) =
     (case connect_start w roomId of
        (w', reached) \<Rightarrow> (w', if reached then waiting @ [roomId] else waiting))"
| "step stringify (w, waiting) (TokenArrives k tr socket_ok) =
     (if k < length waiting
      then (connect_resume socket_ok w (waiting ! k) tr, take k waiting @ drop (Suc k) waiting)
      else (w, waiting))"
| "step stringify (w, waiting) (IdentityRejected k) =
     (if k < length waiting
      then (connect_rejected w (waiting ! k), take k waiting @ drop (Suc k) waiting)
      else (w, waiting))"
| "step stringify (w, waiting) (SocketOpens i send_ok) =
     (socket_open stringify send_ok w i, waiting)"
| "step stringify (w, waiting) (SocketCloses i) = (socket_close w i, waiting)"
| "step stringify (w, waiting) (SocketErrors i) = (socket_error w i, waiting)"
| "step stringify (w, waiting) AlarmFires =
     (case alarm w of
        None \<Rightarrow> (w, waiting)
      | Some backoff \<Rightarrow>
          (case onAlarm w RETRY_ALARM_NAME of
             (w', reached) \<Rightarrow>
               (w', if reached then waiting @ [the (currentRoom w)] else waiting)))"
| "step stringify (w, waiting) (Publish message send_ok) =
     (publish stringify send_ok w message, waiting)"

definition run ::
  "('m \<Rightarrow> string option) \<Rightarrow> 'm publisher \<times> string list \<Rightarrow> 'm event list
     \<Rightarrow> 'm publisher \<times> string list" where
  "run stringify s events = foldl (step stringify) s events"

section \<open>Auxiliary notions for the statements\<close>

text \<open>
  Pushing at the tail of a list and dropping the head when the capacity \<open>c\<close> is
  exceeded: what \<^verbatim>\<open>enqueueMessage\<close> and \<^verbatim>\<open>enqueue\<close> do to their queues.
\<close>

definition push_evict :: "nat \<Rightarrow> 'a list \<Rightarrow> 'a \<Rightarrow> 'a list" where
  "push_evict c q m = (let q' = q @ [m] in if length q' > c then tl q' else q')"

text \<open>The strings sent so far on the socket \<^verbatim>\<open>this.ws\<close>.\<close>

definition ws_written :: "'m publisher \<Rightarrow> string list" where
  "ws_written w = (case ws w of None \<Rightarrow> [] | Some i \<Rightarrow> written (sockets w ! i))"

text \<open>
  The digits that \<^verbatim>\<open>generateUUID\<close> draws, in the order of the template: for each \<^verbatim>\<open>x\<close> the
  value \<open>r\<close>, for the \<^verbatim>\<open>y\<close> the value \<open>r mod 4 + 8\<close>.
\<close>

fun uuid_draws :: "(nat \<Rightarrow> nat) \<Rightarrow> nat \<Rightarrow> string \<Rightarrow> nat list" where
  "uuid_draws rnd k [] = []"
| "uuid_draws rnd k (c # cs) =
     (if c = CHR ''x'' then (rnd k mod 16) # uuid_draws rnd (Suc k) cs
      else if c = CHR ''y'' then ((rnd k mod 16) mod 4 + 8) # uuid_draws rnd (Suc k) cs
      else uuid_draws rnd k cs)"

definition uuid_digits :: "(nat \<Rightarrow> nat) \<Rightarrow> nat list" where
  "uuid_digits rnd = uuid_draws rnd 0 ''xxxxxxxx-xxxx-4xxx-yxxx-xxxxxxxxxxxx''"

text \<open>
  One event that does not switch the room and creates no socket relates the states
  before and after like this: the sockets keep their rooms, no close handler is
  attached, no socket that was closing or closed becomes connecting or open, only the
  socket of \<^verbatim>\<open>this.ws\<close> is written to, and \<^verbatim>\<open>this.ws\<close> stays or becomes null.
\<close>

definition frame :: "'m publisher \<Rightarrow> 'm publisher \<Rightarrow> bool" where
  "frame v v' \<longleftrightarrow>
     currentRoom v' = currentRoom v
     \<and> length (sockets v') = length (sockets v)
     \<and> (\<forall>j < length (sockets v).
           sock_room (sockets v' ! j) = sock_room (sockets v ! j)
           \<and> (onclose (sockets v' ! j) \<longrightarrow> onclose (sockets v ! j))
           \<and> (readyState (sockets v' ! j) = CONNECTING \<or> readyState (sockets v' ! j) = OPEN
                \<longrightarrow> readyState (sockets v ! j) = CONNECTING \<or> readyState (sockets v ! j) = OPEN)
           \<and> (written (sockets v' ! j) \<noteq> written (sockets v ! j) \<longrightarrow> ws v = Some j))
     \<and> (ws v' = ws v \<or> ws v' = None)"

text \<open>
  What holds of the system after the room was switched to \<open>room\<close>, \<open>old\<close> being the
  sockets at the switch: \<open>room\<close> is targeted, every waiting call of \<^verbatim>\<open>connect\<close> is for it,
  the sockets of the switch are still there with what was written to them, none of
  them has got a close handler back or come back to connecting or open, every socket
  created since is for \<open>room\<close>, and \<^verbatim>\<open>this.ws\<close> is null or one of those.
\<close>

definition after_switch :: "string \<Rightarrow> socket list \<Rightarrow> 'm publisher \<times> string list \<Rightarrow> bool" where
  "after_switch room old s \<longleftrightarrow>
     (case s of (v, waiting) \<Rightarrow>
        currentRoom v = Some room
        \<and> (\<forall>r \<in> set waiting. r = room)
        \<and> length old \<le> length (sockets v)
        \<and> (\<forall>j < length old.
              written (sockets v ! j) = written (old ! j)
              \<and> (onclose (sockets v ! j) \<longrightarrow> onclose (old ! j))
              \<and> (readyState (sockets v ! j) = CONNECTING \<or> readyState (sockets v ! j) = OPEN
                   \<longrightarrow> readyState (old ! j) = CONNECTING \<or> readyState (old ! j) = OPEN))
        \<and> (\<forall>j. length old \<le> j \<and> j < length (sockets v) \<longrightarrow> sock_room (sockets v ! j) = room)
        \<and> (\<forall>j. ws v = Some j \<longrightarrow> length old \<le> j \<and> j < length (sockets v)))"

section \<open>Bounded queues\<close>

lemma push_evict_drop:
  "length q \<le> c \<Longrightarrow> push_evict c q m = drop (length (q @ [m]) - c) (q @ [m])"
  by (cases q) (auto simp: push_evict_def Let_def Suc_diff_le)

lemma push_evict_length: "length q \<le> c \<Longrightarrow> length (push_evict c q m) \<le> c"
  by (auto simp: push_evict_def Let_def)

lemma drop_drop_append:
  assumes "k \<le> length xs"
  shows "drop n (drop k xs @ ys) = drop (n + k) (xs @ ys)"
proof -
  have "drop k xs @ ys = drop k (xs @ ys)"
    using assms by simp
  then show ?thesis
    by (simp only: drop_drop)
qed

lemma foldl_push_evict:
  "length q \<le> c \<Longrightarrow> foldl (push_evict c) q ms = drop (length (q @ ms) - c) (q @ ms)"
proof (induction ms arbitrary: q rule: rev_induct)
  case Nil
  then show ?case by simp
next
  case (snoc m ms)
  define xs where "xs = q @ ms"
  define d where "d = length xs - c"
  have ih: "foldl (push_evict c) q ms = drop d xs"
    using snoc by (simp add: xs_def d_def)
  have d_le: "d \<le> length xs"
    by (simp add: d_def)
  have len: "length (drop d xs) \<le> c"
    by (simp add: d_def)
  have "foldl (push_evict c) q (ms @ [m]) = push_evict c (drop d xs) m"
    by (simp add: ih)
  also have "\<dots> = drop (length (drop d xs @ [m]) - c) (drop d xs @ [m])"
    using len by (rule push_evict_drop)
  also have "\<dots> = drop (length (drop d xs @ [m]) - c + d) (xs @ [m])"
    using d_le by (rule drop_drop_append)
  also have "length (drop d xs @ [m]) - c + d = length (xs @ [m]) - c"
    by (simp add: d_def)
  finally show ?case
    by (simp add: xs_def)
qed

lemma foldl_push_evict_last:
  "length q \<le> c \<Longrightarrow> c < length ms \<Longrightarrow> foldl (push_evict c) q ms = drop (length ms - c) ms"
  by (simp add: foldl_push_evict)

lemma foldl_push_evict_length:
  "length q \<le> c \<Longrightarrow> length (foldl (push_evict c) q ms) \<le> c"
  by (simp add: foldl_push_evict)

lemma messageQueue_enqueueMessage:
  "messageQueue (enqueueMessage st m) = push_evict MESSAGE_QUEUE_CAP (messageQueue st) m"
  by (simp add: enqueueMessage_def push_evict_def Let_def)

lemma messageQueue_foldl_enqueueMessage:
  "messageQueue (foldl enqueueMessage st ms) =
     foldl (push_evict MESSAGE_QUEUE_CAP) (messageQueue st) ms"
  by (induction ms arbitrary: st) (simp_all add: messageQueue_enqueueMessage)

lemma queue_enqueue: "queue (enqueue w m) = push_evict QUEUE_CAP (queue w) m"
  by (simp add: enqueue_def push_evict_def Let_def)

lemma queue_foldl_enqueue:
  "queue (foldl enqueue w ms) = foldl (push_evict QUEUE_CAP) (queue w) ms"
  by (induction ms arbitrary: w) (simp_all add: queue_enqueue)

lemma scheduleReconnect_keeps:
  "messageQueue (scheduleReconnect st) = messageQueue st
   \<and> posted (scheduleReconnect st) = posted st
   \<and> checked (scheduleReconnect st) = checked st
   \<and> port (scheduleReconnect st) = port st
   \<and> previousHand (scheduleReconnect st) = previousHand st"
  by (simp add: scheduleReconnect_def Let_def)

lemma queue_and_reconnect_effect:
  "messageQueue (queue_and_reconnect st msg) = push_evict MESSAGE_QUEUE_CAP (messageQueue st) msg
   \<and> posted (queue_and_reconnect st msg) = posted st
   \<and> checked (queue_and_reconnect st msg) = checked st
   \<and> port (queue_and_reconnect st msg) = port st"
  by (auto simp: queue_and_reconnect_def Let_def scheduleReconnect_keeps
        enqueueMessage_def push_evict_def)

lemma push_evict_last: "0 < c \<Longrightarrow> push_evict c q m \<noteq> [] \<and> last (push_evict c q m) = m"
  by (cases q) (auto simp: push_evict_def Let_def)

lemma sendPortMessage_posted:
  "port st \<Longrightarrow> post_ok \<Longrightarrow>
   posted (fst (sendPortMessage post_ok st msg)) = posted st @ [msg]
   \<and> messageQueue (fst (sendPortMessage post_ok st msg)) = messageQueue st
   \<and> checked (fst (sendPortMessage post_ok st msg)) = checked st"
  by (simp add: sendPortMessage_def)

lemma sendPortMessage_queued:
  "\<not> (port st \<and> post_ok) \<Longrightarrow>
   posted (fst (sendPortMessage post_ok st msg)) = posted st
   \<and> messageQueue (fst (sendPortMessage post_ok st msg))
       = push_evict MESSAGE_QUEUE_CAP (messageQueue st) msg
   \<and> checked (fst (sendPortMessage post_ok st msg)) = checked st"
  by (auto simp: sendPortMessage_def queue_and_reconnect_effect)

lemma sendPortMessage_disconnected:
  "\<not> port st \<Longrightarrow>
   \<not> port (fst (sendPortMessage post_ok st msg))
   \<and> messageQueue (fst (sendPortMessage post_ok st msg))
       = push_evict MESSAGE_QUEUE_CAP (messageQueue st) msg"
  by (simp add: sendPortMessage_def queue_and_reconnect_effect)

lemma foldl_sendPortMessage_disconnected:
  "\<not> port st \<Longrightarrow>
   messageQueue (foldl (\<lambda>s m. fst (sendPortMessage post_ok s m)) st ms)
     = foldl (push_evict MESSAGE_QUEUE_CAP) (messageQueue st) ms"
  by (induction ms arbitrary: st) (simp_all add: sendPortMessage_disconnected)

lemma ws_state_enqueue: "ws_state (enqueue w m) = ws_state w"
  by (cases "ws w") (simp_all add: enqueue_def ws_state_def Let_def)

lemma publish_not_open:
  "ws_state w \<noteq> Some OPEN \<Longrightarrow> stringify m \<noteq> None \<Longrightarrow>
   publish stringify send_ok w m = enqueue w m"
  by (auto simp: publish_def)

lemma foldl_publish_not_open:
  "ws_state w \<noteq> Some OPEN \<Longrightarrow> \<forall>m \<in> set ns. stringify m \<noteq> None \<Longrightarrow>
   foldl (publish stringify send_ok) w ns = foldl enqueue w ns"
proof (induction ns arbitrary: w)
  case Nil
  then show ?case by simp
next
  case (Cons m ns)
  have "publish stringify send_ok w m = enqueue w m"
    using Cons.prems by (simp add: publish_not_open)
  moreover have "ws_state (enqueue w m) \<noteq> Some OPEN"
    using Cons.prems(1) by (simp add: ws_state_enqueue)
  moreover have "\<forall>x \<in> set ns. stringify x \<noteq> None"
    using Cons.prems(2) by simp
  ultimately show ?case
    using Cons.IH [of "enqueue w m"] by simp
qed

text \<open>
  Claim C1. Let a queue respect its capacity (20 for \<^verbatim>\<open>messageQueue\<close>, 100 for the
  publisher's \<^verbatim>\<open>queue\<close>), as the empty queue does. After more enqueue operations than
  the capacity, it holds exactly the last 20 (last 100) messages enqueued, in the order
  in which they were enqueued; and after any number of them its length is within the
  capacity. These are the operations performed while disconnected: without a port,
  \<^verbatim>\<open>sendPortMessage\<close> does to the queue what \<^verbatim>\<open>enqueueMessage\<close> does, and without an
  open socket \<^verbatim>\<open>publish\<close>, on messages that \<^verbatim>\<open>JSON.stringify\<close> accepts, is \<^verbatim>\<open>enqueue\<close>.
\<close>

theorem queue_keeps_last_within_capacity:
  assumes "length (messageQueue st) \<le> 20" and "length (queue w) \<le> 100"
  shows "(20 < length ms \<longrightarrow>
            messageQueue (foldl enqueueMessage st ms) = drop (length ms - 20) ms
            \<and> length (messageQueue (foldl enqueueMessage st ms)) = 20)
       \<and> (\<forall>k \<le> length ms. length (messageQueue (foldl enqueueMessage st (take k ms))) \<le> 20)
       \<and> (\<not> port st \<longrightarrow>
            messageQueue (foldl (\<lambda>s m. fst (sendPortMessage post_ok s m)) st ms)
              = messageQueue (foldl enqueueMessage st ms))
       \<and> (100 < length ns \<longrightarrow>
            queue (foldl enqueue w ns) = drop (length ns - 100) ns
            \<and> length (queue (foldl enqueue w ns)) = 100)
       \<and> (\<forall>k \<le> length ns. length (queue (foldl enqueue w (take k ns))) \<le> 100)
       \<and> (ws_state w \<noteq> Some OPEN \<and> (\<forall>m \<in> set ns. stringify m \<noteq> None) \<longrightarrow>
            foldl (publish stringify send_ok) w ns = foldl enqueue w ns)"
proof -
  have a: "length (messageQueue st) \<le> MESSAGE_QUEUE_CAP"
    using assms(1) by (simp add: MESSAGE_QUEUE_CAP_def)
  have b: "length (queue w) \<le> QUEUE_CAP"
    using assms(2) by (simp add: QUEUE_CAP_def)
  have c1: "messageQueue (foldl enqueueMessage st ms) = drop (length ms - 20) ms"
    if "20 < length ms"
    using that a foldl_push_evict_last [of "messageQueue st" MESSAGE_QUEUE_CAP ms]
    by (simp add: messageQueue_foldl_enqueueMessage MESSAGE_QUEUE_CAP_def)
  have c2: "length (messageQueue (foldl enqueueMessage st xs)) \<le> 20" for xs
    using a foldl_push_evict_length [of "messageQueue st" MESSAGE_QUEUE_CAP xs]
    by (simp add: messageQueue_foldl_enqueueMessage MESSAGE_QUEUE_CAP_def)
  have c3: "messageQueue (foldl (\<lambda>s m. fst (sendPortMessage post_ok s m)) st ms)
              = messageQueue (foldl enqueueMessage st ms)"
    if "\<not> port st"
    using that
    by (simp add: foldl_sendPortMessage_disconnected messageQueue_foldl_enqueueMessage)
  have h1: "queue (foldl enqueue w ns) = drop (length ns - 100) ns"
    if "100 < length ns"
    using that b foldl_push_evict_last [of "queue w" QUEUE_CAP ns]
    by (simp add: queue_foldl_enqueue QUEUE_CAP_def)
  have h2: "length (queue (foldl enqueue w xs)) \<le> 100" for xs
    using b foldl_push_evict_length [of "queue w" QUEUE_CAP xs]
    by (simp add: queue_foldl_enqueue QUEUE_CAP_def)
  have h3: "foldl (publish stringify send_ok) w ns = foldl enqueue w ns"
    if "ws_state w \<noteq> Some OPEN" "\<forall>m \<in> set ns. stringify m \<noteq> None"
    using that by (rule foldl_publish_not_open)
  show ?thesis
    using c1 c2 c3 h1 h2 h3 by simp
qed

theorem queue_keeps_last_within_capacity_witness:
  "messageQueue (foldl enqueueMessage (initial_channel :: nat channel) [0..<21]) = [1..<21]
   \<and> queue (foldl enqueue (new_publisher :: nat publisher) [0..<101]) = [1..<101]"
  using queue_keeps_last_within_capacity
          [of "initial_channel :: nat channel" "new_publisher :: nat publisher"
              "[0..<21]" True "[0..<101]" "\<lambda>n. Some ''n''" True]
  by (simp add: initial_channel_def new_publisher_def)

section \<open>Backoff\<close>

lemma reconnect_delay_eq: "reconnect_delay n = min (2000 * (3 / 2) ^ (n - 1)) 30000"
  by (simp add: reconnect_delay_def RECONNECT_INTERVAL_MS_def)

lemma reconnect_delay_mono: "m \<le> n \<Longrightarrow> reconnect_delay m \<le> reconnect_delay n"
proof -
  assume "m \<le> n"
  then have "m - 1 \<le> n - 1" by simp
  then have "(3 / 2 :: rat) ^ (m - 1) \<le> (3 / 2) ^ (n - 1)"
    by (intro power_increasing) simp_all
  then have "2000 * (3 / 2 :: rat) ^ (m - 1) \<le> 2000 * (3 / 2) ^ (n - 1)"
    by simp
  then show ?thesis
    unfolding reconnect_delay_eq by (rule min.mono) simp
qed

lemma retry_backoff_eq: "retry_backoff n = min (1000 * 2 ^ (n - 1)) 10000"
  by (simp add: retry_backoff_def INITIAL_BACKOFF_MS_def MAX_BACKOFF_MS_def)

lemma retry_backoff_mono: "m \<le> n \<Longrightarrow> retry_backoff m \<le> retry_backoff n"
proof -
  assume "m \<le> n"
  then have "m - 1 \<le> n - 1" by simp
  then have "(2 :: nat) ^ (m - 1) \<le> 2 ^ (n - 1)"
    by (intro power_increasing) simp_all
  then have "1000 * (2 :: nat) ^ (m - 1) \<le> 1000 * 2 ^ (n - 1)"
    by simp
  then show ?thesis
    unfolding retry_backoff_eq by (rule min.mono) simp
qed

lemma scheduleReconnect_below:
  "reconnectTimer st = None \<Longrightarrow> reconnectAttempts st < 50 \<Longrightarrow>
   scheduleReconnect st =
     st\<lparr>reconnectAttempts := reconnectAttempts st + 1,
        reconnectTimer := Some (reconnect_delay (reconnectAttempts st + 1))\<rparr>"
  by (simp add: scheduleReconnect_def MAX_RECONNECT_ATTEMPTS_def Let_def)

lemma scheduleReconnect_exhausted:
  "50 \<le> reconnectAttempts st \<Longrightarrow> scheduleReconnect st = st"
  by (simp add: scheduleReconnect_def MAX_RECONNECT_ATTEMPTS_def)

lemma scheduleRetry_below:
  "retryCount w < 100 \<Longrightarrow>
   scheduleRetry w r ov =
     w\<lparr>alarm := None, retryCount := retryCount w + 1,
       alarm := Some (case ov of Some b \<Rightarrow> b | None \<Rightarrow> retry_backoff (retryCount w + 1))\<rparr>"
  by (cases ov) (simp_all add: scheduleRetry_def MAX_RETRIES_def Let_def clearRetryAlarm_def)

lemma scheduleRetry_exhausted:
  "100 \<le> retryCount w \<Longrightarrow> scheduleRetry w r ov = w\<lparr>alarm := None\<rparr>"
  by (simp add: scheduleRetry_def MAX_RETRIES_def clearRetryAlarm_def)

text \<open>
  Claim C6. \<^verbatim>\<open>scheduleReconnect\<close>, when no timer is pending and fewer than 50 attempts
  were made, increments the counter to \<open>n\<close> and starts a timer of
  \<open>min (2000 * 1.5 ^ (n - 1)) 30000\<close> milliseconds; \<^verbatim>\<open>scheduleRetry\<close> without an override,
  below 100 retries, increments the counter to \<open>n\<close> and creates the alarm with
  \<open>min (1000 * 2 ^ (n - 1)) 10000\<close>. Both delays are non-decreasing in \<open>n\<close> and never
  above their ceilings. From 50 attempts on \<^verbatim>\<open>scheduleReconnect\<close> changes nothing, and
  from 100 retries on \<^verbatim>\<open>scheduleRetry\<close> leaves no alarm and does not count.
\<close>

theorem backoff_schedules:
  "(reconnectTimer st = None \<and> reconnectAttempts st < 50 \<longrightarrow>
      reconnectAttempts (scheduleReconnect st) = reconnectAttempts st + 1
      \<and> reconnectTimer (scheduleReconnect st)
          = Some (min (2000 * (3 / 2) ^ (reconnectAttempts (scheduleReconnect st) - 1)) 30000))
   \<and> (50 \<le> reconnectAttempts st \<longrightarrow> scheduleReconnect st = st)
   \<and> (retryCount w < 100 \<longrightarrow>
        retryCount (scheduleRetry w room None) = retryCount w + 1
        \<and> alarm (scheduleRetry w room None)
            = Some (min (1000 * 2 ^ (retryCount (scheduleRetry w room None) - 1)) 10000))
   \<and> (100 \<le> retryCount w \<longrightarrow>
        alarm (scheduleRetry w room override) = None
        \<and> retryCount (scheduleRetry w room override) = retryCount w)
   \<and> (m \<le> n \<longrightarrow> reconnect_delay m \<le> reconnect_delay n \<and> retry_backoff m \<le> retry_backoff n)
   \<and> reconnect_delay n = min (2000 * (3 / 2) ^ (n - 1)) 30000
   \<and> reconnect_delay n \<le> 30000
   \<and> retry_backoff n = min (1000 * 2 ^ (n - 1)) 10000
   \<and> retry_backoff n \<le> 10000"
  using reconnect_delay_mono [of m n] retry_backoff_mono [of m n]
  by (simp add: scheduleReconnect_below scheduleReconnect_exhausted scheduleRetry_below
        scheduleRetry_exhausted reconnect_delay_eq retry_backoff_eq)

theorem backoff_schedules_witness:
  "reconnectTimer (scheduleReconnect ((initial_channel :: nat channel)\<lparr>reconnectAttempts := 3\<rparr>)) = Some 6750
   \<and> scheduleReconnect ((initial_channel :: nat channel)\<lparr>reconnectAttempts := 50\<rparr>)
       = initial_channel\<lparr>reconnectAttempts := 50\<rparr>
   \<and> alarm (scheduleRetry ((new_publisher :: nat publisher)\<lparr>retryCount := 2\<rparr>) ''r'' None) = Some 4000
   \<and> alarm (scheduleRetry ((new_publisher :: nat publisher)\<lparr>retryCount := 100, alarm := Some 10000\<rparr>) ''r'' None) = None
   \<and> reconnect_delay 7 \<le> reconnect_delay 8"
  using backoff_schedules [of "(initial_channel :: nat channel)\<lparr>reconnectAttempts := 3\<rparr>"
          "(new_publisher :: nat publisher)\<lparr>retryCount := 2\<rparr>" "''r''" None 7 8]
     backoff_schedules [of "(initial_channel :: nat channel)\<lparr>reconnectAttempts := 50\<rparr>"
          "(new_publisher :: nat publisher)\<lparr>retryCount := 100, alarm := Some 10000\<rparr>" "''r''" None 7 8]
  by (simp add: initial_channel_def new_publisher_def power3_eq_cube)

section \<open>Flushing\<close>

lemma flush_loop_prefix:
  "\<exists>n \<le> length q. flush_loop ok k q out = (drop n q, out @ take n q)
      \<and> (\<forall>j < n. ok (k + j)) \<and> (n < length q \<longrightarrow> \<not> ok (k + n))"
proof (induction q arbitrary: k out)
  case Nil
  then show ?case by simp
next
  case (Cons m q)
  show ?case
  proof (cases "ok k")
    case False
    then have "flush_loop ok k (m # q) out = (drop 0 (m # q), out @ take 0 (m # q))
        \<and> (\<forall>j < 0. ok (k + j)) \<and> (0 < length (m # q) \<longrightarrow> \<not> ok (k + 0))"
      by simp
    then show ?thesis by blast
  next
    case True
    from Cons.IH [of "Suc k" "out @ [m]"] obtain n where n:
      "n \<le> length q" "flush_loop ok (Suc k) q (out @ [m]) = (drop n q, (out @ [m]) @ take n q)"
      "\<forall>j < n. ok (Suc k + j)" "n < length q \<longrightarrow> \<not> ok (Suc k + n)"
      by blast
    have all: "\<forall>j < Suc n. ok (k + j)"
    proof (intro allI impI)
      fix j assume "j < Suc n"
      then show "ok (k + j)"
        using True n(3) by (cases j) simp_all
    qed
    have "Suc n \<le> length (m # q)
        \<and> flush_loop ok k (m # q) out = (drop (Suc n) (m # q), out @ take (Suc n) (m # q))
        \<and> (\<forall>j < Suc n. ok (k + j)) \<and> (Suc n < length (m # q) \<longrightarrow> \<not> ok (k + Suc n))"
      using True n all by simp
    then show ?thesis by blast
  qed
qed

lemma flushQueue_loop_prefix:
  "\<exists>n \<le> length q. flushQueue_loop sf ok k q out = (drop n q, out @ map (the \<circ> sf) (take n q))
      \<and> (\<forall>j < n. sf (q ! j) \<noteq> None \<and> ok (k + j))
      \<and> (n < length q \<longrightarrow> sf (q ! n) = None \<or> \<not> ok (k + n))"
proof (induction q arbitrary: k out)
  case Nil
  then show ?case by simp
next
  case (Cons m q)
  show ?case
  proof (cases "sf m \<noteq> None \<and> ok k")
    case False
    then have "flushQueue_loop sf ok k (m # q) out = (m # q, out)"
      by (auto split: option.splits)
    then have "0 \<le> length (m # q) \<and> flushQueue_loop sf ok k (m # q) out
          = (drop 0 (m # q), out @ map (the \<circ> sf) (take 0 (m # q)))
        \<and> (\<forall>j < 0. sf ((m # q) ! j) \<noteq> None \<and> ok (k + j))
        \<and> (0 < length (m # q) \<longrightarrow> sf ((m # q) ! 0) = None \<or> \<not> ok (k + 0))"
      using False by simp
    then show ?thesis by blast
  next
    case True
    then obtain s where s: "sf m = Some s" and okk: "ok k" by auto
    from Cons.IH [of "Suc k" "out @ [s]"] obtain n where n:
      "n \<le> length q"
      "flushQueue_loop sf ok (Suc k) q (out @ [s]) = (drop n q, (out @ [s]) @ map (the \<circ> sf) (take n q))"
      "\<forall>j < n. sf (q ! j) \<noteq> None \<and> ok (Suc k + j)"
      "n < length q \<longrightarrow> sf (q ! n) = None \<or> \<not> ok (Suc k + n)"
      by blast
    have all: "\<forall>j < Suc n. sf ((m # q) ! j) \<noteq> None \<and> ok (k + j)"
    proof (intro allI impI)
      fix j assume "j < Suc n"
      then show "sf ((m # q) ! j) \<noteq> None \<and> ok (k + j)"
        using s okk n(3) by (cases j) simp_all
    qed
    have "Suc n \<le> length (m # q)
        \<and> flushQueue_loop sf ok k (m # q) out
            = (drop (Suc n) (m # q), out @ map (the \<circ> sf) (take (Suc n) (m # q)))
        \<and> (\<forall>j < Suc n. sf ((m # q) ! j) \<noteq> None \<and> ok (k + j))
        \<and> (Suc n < length (m # q) \<longrightarrow> sf ((m # q) ! Suc n) = None \<or> \<not> ok (k + Suc n))"
      using s okk n all by simp
    then show ?thesis by blast
  qed
qed

lemma flushMessageQueue_connected:
  assumes "port st"
  shows "\<exists>n \<le> length (messageQueue st).
           flushMessageQueue ok st
             = st\<lparr>messageQueue := drop n (messageQueue st),
                   posted := posted st @ take n (messageQueue st)\<rparr>
           \<and> (\<forall>j < n. ok j) \<and> (n < length (messageQueue st) \<longrightarrow> \<not> ok n)"
proof -
  from flush_loop_prefix [of "messageQueue st" ok 0 "posted st"] obtain n where
    "n \<le> length (messageQueue st)"
    "flush_loop ok 0 (messageQueue st) (posted st)
       = (drop n (messageQueue st), posted st @ take n (messageQueue st))"
    "\<forall>j < n. ok (0 + j)" "n < length (messageQueue st) \<longrightarrow> \<not> ok (0 + n)"
    by blast
  then have "n \<le> length (messageQueue st)
     \<and> flushMessageQueue ok st
             = st\<lparr>messageQueue := drop n (messageQueue st),
                   posted := posted st @ take n (messageQueue st)\<rparr>
           \<and> (\<forall>j < n. ok j) \<and> (n < length (messageQueue st) \<longrightarrow> \<not> ok n)"
    using assms by (simp add: flushMessageQueue_def)
  then show ?thesis by blast
qed

lemma ws_state_OPEN:
  "ws_state w = Some OPEN \<Longrightarrow> \<exists>i. ws w = Some i \<and> i < length (sockets w)"
  by (auto simp: ws_state_def split: option.splits if_splits)

lemma flushQueue_open:
  assumes "ws_state w = Some OPEN"
  shows "\<exists>n \<le> length (queue w).
           queue (flushQueue sf ok w) = drop n (queue w)
           \<and> ws_written (flushQueue sf ok w) = ws_written w @ map (the \<circ> sf) (take n (queue w))
           \<and> ws (flushQueue sf ok w) = ws w
           \<and> (\<forall>j < n. sf (queue w ! j) \<noteq> None \<and> ok j)
           \<and> (n < length (queue w) \<longrightarrow> sf (queue w ! n) = None \<or> \<not> ok n)"
proof -
  from ws_state_OPEN [OF assms] obtain i where i: "ws w = Some i" "i < length (sockets w)"
    by blast
  from flushQueue_loop_prefix [of "queue w" sf ok 0 "[]"] obtain n where n:
    "n \<le> length (queue w)"
    "flushQueue_loop sf ok 0 (queue w) [] = (drop n (queue w), [] @ map (the \<circ> sf) (take n (queue w)))"
    "\<forall>j < n. sf (queue w ! j) \<noteq> None \<and> ok (0 + j)"
    "n < length (queue w) \<longrightarrow> sf (queue w ! n) = None \<or> \<not> ok (0 + n)"
    by blast
  have "n \<le> length (queue w) \<and> queue (flushQueue sf ok w) = drop n (queue w)
           \<and> ws_written (flushQueue sf ok w) = ws_written w @ map (the \<circ> sf) (take n (queue w))
           \<and> ws (flushQueue sf ok w) = ws w
           \<and> (\<forall>j < n. sf (queue w ! j) \<noteq> None \<and> ok j)
           \<and> (n < length (queue w) \<longrightarrow> sf (queue w ! n) = None \<or> \<not> ok n)"
    using assms i n by (simp add: flushQueue_def ws_written_def Let_def)
  then show ?thesis by blast
qed


text \<open>
  Claim C5. With the port there, \<^verbatim>\<open>flushMessageQueue\<close> posts the first \<open>n\<close> queued
  messages in queue order and leaves the others queued in their order, where every one
  of the \<open>n\<close> calls of \<^verbatim>\<open>postMessage\<close> returned and, if messages are left, the next call
  threw: the message it was given is the head of the queue left. Without a port it does
  nothing. \<^verbatim>\<open>flushQueue\<close> does the same on the open socket \<^verbatim>\<open>this.ws\<close>, a transmit
  failing when \<^verbatim>\<open>JSON.stringify\<close> or \<^verbatim>\<open>send\<close> throws, and does nothing when the socket is
  not open. So what was posted followed by what is queued is the same sequence before
  and after.
\<close>

theorem flush_fifo_stops_at_failure:
  "(port st \<longrightarrow>
      (\<exists>n \<le> length (messageQueue st).
          messageQueue (flushMessageQueue post_ok st) = drop n (messageQueue st)
          \<and> posted (flushMessageQueue post_ok st) = posted st @ take n (messageQueue st)
          \<and> (\<forall>j < n. post_ok j)
          \<and> (n < length (messageQueue st) \<longrightarrow> \<not> post_ok n))
      \<and> posted (flushMessageQueue post_ok st) @ messageQueue (flushMessageQueue post_ok st)
          = posted st @ messageQueue st)
   \<and> (\<not> port st \<longrightarrow> flushMessageQueue post_ok st = st)
   \<and> (ws_state w = Some OPEN \<longrightarrow>
      (\<exists>n \<le> length (queue w).
          queue (flushQueue stringify send_ok w) = drop n (queue w)
          \<and> ws_written (flushQueue stringify send_ok w)
              = ws_written w @ map (the \<circ> stringify) (take n (queue w))
          \<and> (\<forall>j < n. stringify (queue w ! j) \<noteq> None \<and> send_ok j)
          \<and> (n < length (queue w) \<longrightarrow> stringify (queue w ! n) = None \<or> \<not> send_ok n)))
   \<and> (ws_state w \<noteq> Some OPEN \<longrightarrow> flushQueue stringify send_ok w = w)"
proof -
  have ch: "(\<exists>n \<le> length (messageQueue st).
          messageQueue (flushMessageQueue post_ok st) = drop n (messageQueue st)
          \<and> posted (flushMessageQueue post_ok st) = posted st @ take n (messageQueue st)
          \<and> (\<forall>j < n. post_ok j)
          \<and> (n < length (messageQueue st) \<longrightarrow> \<not> post_ok n))
      \<and> posted (flushMessageQueue post_ok st) @ messageQueue (flushMessageQueue post_ok st)
          = posted st @ messageQueue st" if p: "port st"
  proof -
    from flushMessageQueue_connected [OF p, of post_ok] obtain n where n:
      "n \<le> length (messageQueue st)"
      "flushMessageQueue post_ok st
         = st\<lparr>messageQueue := drop n (messageQueue st),
               posted := posted st @ take n (messageQueue st)\<rparr>"
      "\<forall>j < n. post_ok j" "n < length (messageQueue st) \<longrightarrow> \<not> post_ok n"
      by blast
    have "posted (flushMessageQueue post_ok st) @ messageQueue (flushMessageQueue post_ok st)
          = posted st @ messageQueue st"
      by (simp add: n(2))
    moreover have "n \<le> length (messageQueue st)
          \<and> messageQueue (flushMessageQueue post_ok st) = drop n (messageQueue st)
          \<and> posted (flushMessageQueue post_ok st) = posted st @ take n (messageQueue st)
          \<and> (\<forall>j < n. post_ok j)
          \<and> (n < length (messageQueue st) \<longrightarrow> \<not> post_ok n)"
      using n by simp
    ultimately show ?thesis by blast
  qed
  have hub: "\<exists>n \<le> length (queue w).
          queue (flushQueue stringify send_ok w) = drop n (queue w)
          \<and> ws_written (flushQueue stringify send_ok w)
              = ws_written w @ map (the \<circ> stringify) (take n (queue w))
          \<and> (\<forall>j < n. stringify (queue w ! j) \<noteq> None \<and> send_ok j)
          \<and> (n < length (queue w) \<longrightarrow> stringify (queue w ! n) = None \<or> \<not> send_ok n)"
    if "ws_state w = Some OPEN"
    using flushQueue_open [OF that, of stringify send_ok] by blast
  have off: "flushMessageQueue post_ok st = st" if "\<not> port st"
    using that by (simp add: flushMessageQueue_def)
  have closed: "flushQueue stringify send_ok w = w" if "ws_state w \<noteq> Some OPEN"
    using that by (simp add: flushQueue_def)
  show ?thesis
    using ch hub off closed by blast
qed

theorem flush_fifo_stops_at_failure_witness:
  "messageQueue (flushMessageQueue (\<lambda>k. k < 2)
       ((initial_channel :: nat channel)\<lparr>port := True, messageQueue := [1, 2, 3]\<rparr>)) = [3]
   \<and> posted (flushMessageQueue (\<lambda>k. k < 2)
       ((initial_channel :: nat channel)\<lparr>port := True, messageQueue := [1, 2, 3]\<rparr>)) = [1, 2]
   \<and> queue (flushQueue Some (\<lambda>k. k < 1)
       (new_publisher\<lparr>ws := Some 0, queue := [''a'', ''b''],
          sockets := [\<lparr>sock_room = ''r'', sock_token = ''t'', readyState = OPEN,
                       onclose = True, written = []\<rparr>]\<rparr>)) = [''b'']
   \<and> ws_written (flushQueue Some (\<lambda>k. k < 1)
       (new_publisher\<lparr>ws := Some 0, queue := [''a'', ''b''],
          sockets := [\<lparr>sock_room = ''r'', sock_token = ''t'', readyState = OPEN,
                       onclose = True, written = []\<rparr>]\<rparr>)) = [''a'']"
  using flush_fifo_stops_at_failure
    [of "(initial_channel :: nat channel)\<lparr>port := True, messageQueue := [1, 2, 3]\<rparr>"
        "\<lambda>k. k < 2"
        "new_publisher\<lparr>ws := Some 0, queue := [''a'', ''b''],
          sockets := [\<lparr>sock_room = ''r'', sock_token = ''t'', readyState = OPEN,
                       onclose = True, written = []\<rparr>]\<rparr>"
        Some "\<lambda>k. k < 1"]
  by (simp add: initial_channel_def new_publisher_def flushMessageQueue_def flushQueue_def
        ws_state_def ws_written_def)

section \<open>Room extraction and dropped events\<close>

lemma split_on_nonempty: "split_on c s \<noteq> []"
  by (induction s) (auto split: list.splits)

lemma split_on_Cons:
  "split_on c (x # xs) =
     (if x = c then [] # split_on c xs else (x # hd (split_on c xs)) # tl (split_on c xs))"
  using split_on_nonempty [of c xs] by (cases "split_on c xs") simp_all

lemma hd_split_on: "hd (split_on c s) = takeWhile (\<lambda>x. x \<noteq> c) s"
  by (induction s) (simp_all add: split_on_Cons del: split_on.simps(2))

lemma split_on_absent: "c \<notin> set s \<Longrightarrow> split_on c s = [s]"
  by (induction s) auto

lemma split_on_present: "c \<in> set s \<Longrightarrow> tl (split_on c s) \<noteq> []"
  using split_on_nonempty [of c]
  by (induction s) (auto simp: split_on_Cons simp del: split_on.simps(2))

lemma last_split_on_Cons:
  "c \<in> set s \<Longrightarrow> last (split_on c (a # s)) = last (split_on c s)"
  using split_on_present [of c s] split_on_nonempty [of c s]
  by (cases "split_on c s") (auto simp: split_on_Cons simp del: split_on.simps(2))

lemma last_split_on: "last (split_on c s) = rev (takeWhile (\<lambda>x. x \<noteq> c) (rev s))"
proof (induction s)
  case Nil
  then show ?case by simp
next
  case (Cons a s)
  show ?case
  proof (cases "c \<in> set s")
    case True
    then have "takeWhile (\<lambda>x. x \<noteq> c) (rev s @ [a]) = takeWhile (\<lambda>x. x \<noteq> c) (rev s)"
      using takeWhile_append1 [of c "rev s" "\<lambda>x. x \<noteq> c" "[a]"] by simp
    then show ?thesis
      using True Cons by (simp add: last_split_on_Cons del: split_on.simps(2))
  next
    case False
    then have "takeWhile (\<lambda>x. x \<noteq> c) (rev s @ [a]) = rev s @ takeWhile (\<lambda>x. x \<noteq> c) [a]"
      by (intro takeWhile_append2) auto
    then show ?thesis
      using False by (simp add: split_on_absent)
  qed
qed

lemma trim_empty_iff: "trim s = [] \<longleftrightarrow> (\<forall>ch \<in> set s. js_space ch)"
proof
  assume "trim s = []"
  then have all: "\<forall>x \<in> set (dropWhile js_space s). js_space x"
    by (simp add: trim_def dropWhile_eq_Nil_conv)
  have "dropWhile js_space s = []"
  proof (rule ccontr)
    assume ne: "dropWhile js_space s \<noteq> []"
    then have "\<not> js_space (hd (dropWhile js_space s))"
      by (rule hd_dropWhile)
    moreover have "hd (dropWhile js_space s) \<in> set (dropWhile js_space s)"
      using ne by simp
    ultimately show False using all by blast
  qed
  then show "\<forall>ch \<in> set s. js_space ch"
    by (simp add: dropWhile_eq_Nil_conv)
next
  assume "\<forall>ch \<in> set s. js_space ch"
  then have e: "dropWhile js_space s = []"
    by (simp add: dropWhile_eq_Nil_conv)
  show "trim s = []"
    unfolding trim_def e by simp
qed


lemma extractRoomFromUrl_string:
  "extractRoomFromUrl (JStr s) =
     (let cleanUrl = strip_trailing_slash
                       (takeWhile (\<lambda>x. x \<noteq> CHR ''#'') (takeWhile (\<lambda>x. x \<noteq> CHR ''?'') s));
          lastSegment = rev (takeWhile (\<lambda>x. x \<noteq> CHR ''/'') (rev cleanUrl))
      in if \<exists>ch \<in> set lastSegment. \<not> js_space ch then Some lastSegment else None)"
proof -
  have "trim t \<noteq> [] \<Longrightarrow> t \<noteq> []" for t
    by (auto simp: trim_def)
  then show ?thesis
    by (auto simp: extractRoomFromUrl_def hd_split_on last_split_on Let_def trim_empty_iff)
qed

lemma handleHandData_dropped:
  "\<not> truthy (url d) \<or> extractRoomFromUrl (url d) = None \<Longrightarrow> handleHandData w d = (w, [])"
  by (auto simp: handleHandData_def)

lemma handleHandData_routed:
  "truthy (url d) \<Longrightarrow> extractRoomFromUrl (url d) = Some r \<Longrightarrow>
   handleHandData w d =
     (fst (connect_start w r),
      (if snd (connect_start w r) then [ConnectPending r] else []) @ [PublishPending r d])"
  by (simp add: handleHandData_def split: prod.splits)

lemmas extract_eval = extractRoomFromUrl_def strip_trailing_slash_def trim_def js_space_def

text \<open>
  Claim C3, as the code has it. On a string (of code units below 256),
  \<^verbatim>\<open>extractRoomFromUrl\<close> cuts the url at the first \<^verbatim>\<open>?\<close> and then at the first \<^verbatim>\<open>#\<close>,
  removes one slash at the end and returns what follows the last remaining slash,
  unless that segment is empty or white space only, in which case there is no room.
  On a value that is not a string, falsy or truthy, there is no room. So
  \<^verbatim>\<open>"https://host/games/abc123/"\<close> and \<^verbatim>\<open>"https://host/games/abc123?x=1#y"\<close> give
  \<^verbatim>\<open>"abc123"\<close>, \<^verbatim>\<open>"https://host/"\<close> gives the room \<^verbatim>\<open>"host"\<close>, and \<^verbatim>\<open>"https://host//"\<close>
  gives no room. An event whose url is falsy or has no room is dropped:
  \<^verbatim>\<open>handleHandData\<close> changes nothing and leaves nothing pending. Any other event calls
  \<^verbatim>\<open>connect\<close> for its room and leaves its publication pending.
\<close>

theorem room_extraction:
  "extractRoomFromUrl (JStr s) =
     (let cleanUrl = strip_trailing_slash
                       (takeWhile (\<lambda>x. x \<noteq> CHR ''#'') (takeWhile (\<lambda>x. x \<noteq> CHR ''?'') s));
          lastSegment = rev (takeWhile (\<lambda>x. x \<noteq> CHR ''/'') (rev cleanUrl))
      in if \<exists>ch \<in> set lastSegment. \<not> js_space ch then Some lastSegment else None)
   \<and> extractRoomFromUrl (JStr ''https://host/games/abc123/'') = Some ''abc123''
   \<and> extractRoomFromUrl (JStr ''https://host/games/abc123?x=1#y'') = Some ''abc123''
   \<and> extractRoomFromUrl (JStr ''https://host/'') = Some ''host''
   \<and> extractRoomFromUrl (JStr ''https://host//'') = None
   \<and> extractRoomFromUrl JTruthy = None
   \<and> extractRoomFromUrl JFalsy = None
   \<and> (\<not> truthy (url d) \<or> extractRoomFromUrl (url d) = None \<longrightarrow> handleHandData w d = (w, []))
   \<and> (truthy (url d) \<and> extractRoomFromUrl (url d) = Some r \<longrightarrow>
        handleHandData w d =
          (fst (connect_start w r),
           (if snd (connect_start w r) then [ConnectPending r] else []) @ [PublishPending r d]))"
proof -
  have e1: "extractRoomFromUrl (JStr ''https://host/games/abc123/'') = Some ''abc123''"
    by (simp add: extract_eval)
  have e2: "extractRoomFromUrl (JStr ''https://host/games/abc123?x=1#y'') = Some ''abc123''"
    by (simp add: extract_eval)
  have e3: "extractRoomFromUrl (JStr ''https://host/'') = Some ''host''"
    by (simp add: extract_eval)
  have e4: "extractRoomFromUrl (JStr ''https://host//'') = None"
    by (simp add: extract_eval)
  have e5: "extractRoomFromUrl JTruthy = None" and e6: "extractRoomFromUrl JFalsy = None"
    by (simp_all add: extractRoomFromUrl_def)
  show ?thesis
    using extractRoomFromUrl_string [of s] e1 e2 e3 e4 e5 e6
      handleHandData_dropped [of d w] handleHandData_routed [of d r w]
    by blast
qed

theorem room_extraction_witness:
  "handleHandData new_publisher
     \<lparr>value1 = ''A'', suit1 = ''s'', value2 = ''K'', suit2 = ''h'',
      url = JStr ''https://host//'', playerId = JFalsy, playerName = JFalsy, timestamp = 0\<rparr>
   = (new_publisher, [])
   \<and> fst (handleHandData new_publisher
     \<lparr>value1 = ''A'', suit1 = ''s'', value2 = ''K'', suit2 = ''h'',
      url = JStr ''https://host/games/abc123/'', playerId = JFalsy, playerName = JFalsy,
      timestamp = 0\<rparr>)
   = fst (connect_start new_publisher ''abc123'')
   \<and> handleHandData new_publisher
     \<lparr>value1 = ''A'', suit1 = ''s'', value2 = ''K'', suit2 = ''h'',
      url = JTruthy, playerId = JFalsy, playerName = JFalsy, timestamp = 0\<rparr>
   = (new_publisher, [])"
  using room_extraction [of "[]"
      "\<lparr>value1 = ''A'', suit1 = ''s'', value2 = ''K'', suit2 = ''h'',
        url = JStr ''https://host//'', playerId = JFalsy, playerName = JFalsy, timestamp = 0\<rparr>"
      new_publisher "[]"]
    room_extraction [of "[]"
      "\<lparr>value1 = ''A'', suit1 = ''s'', value2 = ''K'', suit2 = ''h'',
        url = JTruthy, playerId = JFalsy, playerName = JFalsy, timestamp = 0\<rparr>"
      new_publisher "[]"]
    room_extraction [of "[]"
      "\<lparr>value1 = ''A'', suit1 = ''s'', value2 = ''K'', suit2 = ''h'',
        url = JStr ''https://host/games/abc123/'', playerId = JFalsy, playerName = JFalsy,
        timestamp = 0\<rparr>"
      new_publisher "''abc123''"]
  by simp

theorem room_extraction_counterexample:
  "extractRoomFromUrl (JStr ''https://host/'') = Some ''host''
   \<and> currentRoom (fst (handleHandData new_publisher
         \<lparr>value1 = ''A'', suit1 = ''s'', value2 = ''K'', suit2 = ''h'',
          url = JStr ''https://host/'', playerId = JFalsy, playerName = JFalsy,
          timestamp = 0\<rparr>)) = Some ''host''
   \<and> snd (handleHandData new_publisher
         \<lparr>value1 = ''A'', suit1 = ''s'', value2 = ''K'', suit2 = ''h'',
          url = JStr ''https://host/'', playerId = JFalsy, playerName = JFalsy,
          timestamp = 0\<rparr>)
       = [ConnectPending ''host'',
          PublishPending ''host''
            \<lparr>value1 = ''A'', suit1 = ''s'', value2 = ''K'', suit2 = ''h'',
             url = JStr ''https://host/'', playerId = JFalsy, playerName = JFalsy,
             timestamp = 0\<rparr>]"
  by (simp add: extract_eval handleHandData_def connect_start_def new_publisher_def
        disconnect_def clearRetryAlarm_def ws_state_def)

section \<open>Publishing\<close>

lemma ws_written_ws_send:
  "ws_state w = Some OPEN \<Longrightarrow>
   ws_written (ws_send w s) = ws_written w @ [s] \<and> queue (ws_send w s) = queue w"
  by (auto simp: ws_state_def ws_send_def ws_written_def split: option.splits if_splits)

lemma publish_cases:
  "stringify m = Some s \<Longrightarrow>
   publish stringify send_ok w m =
     (if ws_state w = Some OPEN \<and> send_ok then ws_send w s else enqueue w m)"
  by (simp add: publish_def)

lemma publish_unserializable: "stringify m = None \<Longrightarrow> publish stringify send_ok w m = w"
  by (simp add: publish_def)

lemma queue_enqueue_cases:
  "queue (enqueue w m) = (if length (queue w) < 100 then queue w @ [m] else tl (queue w) @ [m])"
  by (cases "queue w") (simp_all add: enqueue_def QUEUE_CAP_def Let_def)

text \<open>
  Claim C7, as the code has it. Let \<^verbatim>\<open>JSON.stringify\<close> return a string for the envelope.
  If the socket is open, \<^verbatim>\<open>publish\<close> sends that string, and if \<^verbatim>\<open>send\<close> throws it
  enqueues the envelope; if the socket is not open it enqueues the envelope. Enqueueing
  puts the envelope at the tail and, at 100 queued, drops the head. So the envelope is
  then written to the socket or is the last of the queue. If \<^verbatim>\<open>JSON.stringify\<close> throws,
  \<^verbatim>\<open>publish\<close> changes nothing: the envelope is neither sent nor queued.
\<close>

theorem publish_sends_or_enqueues:
  "(stringify m = Some s \<and> ws_state w = Some OPEN \<and> send_ok \<longrightarrow>
      ws_written (publish stringify send_ok w m) = ws_written w @ [s]
      \<and> queue (publish stringify send_ok w m) = queue w)
   \<and> (stringify m = Some s \<and> ws_state w = Some OPEN \<and> \<not> send_ok \<longrightarrow>
      publish stringify send_ok w m = enqueue w m)
   \<and> (stringify m = Some s \<and> ws_state w \<noteq> Some OPEN \<longrightarrow>
      publish stringify send_ok w m = enqueue w m)
   \<and> queue (enqueue w m)
       = (if length (queue w) < 100 then queue w @ [m] else tl (queue w) @ [m])
   \<and> (stringify m = None \<longrightarrow> publish stringify send_ok w m = w)"
  by (auto simp: ws_written_ws_send publish_cases publish_unserializable queue_enqueue_cases)

theorem publish_sends_or_enqueues_witness:
  "queue (publish Some True (new_publisher :: string publisher) ''m'') = [''m'']
   \<and> queue (publish Some False
        (new_publisher\<lparr>ws := Some 0,
           sockets := [\<lparr>sock_room = ''r'', sock_token = ''t'', readyState = OPEN,
                        onclose = True, written = []\<rparr>]\<rparr>) ''m'') = [''m'']
   \<and> ws_written (publish Some True
        (new_publisher\<lparr>ws := Some 0,
           sockets := [\<lparr>sock_room = ''r'', sock_token = ''t'', readyState = OPEN,
                        onclose = True, written = []\<rparr>]\<rparr>) ''m'') = [''m'']"
  using publish_sends_or_enqueues [of Some "''m''" "''m''" "new_publisher :: string publisher" True]
    publish_sends_or_enqueues [of Some "''m''" "''m''"
        "new_publisher\<lparr>ws := Some 0,
           sockets := [\<lparr>sock_room = ''r'', sock_token = ''t'', readyState = OPEN,
                        onclose = True, written = []\<rparr>]\<rparr>" False]
    publish_sends_or_enqueues [of Some "''m''" "''m''"
        "new_publisher\<lparr>ws := Some 0,
           sockets := [\<lparr>sock_room = ''r'', sock_token = ''t'', readyState = OPEN,
                        onclose = True, written = []\<rparr>]\<rparr>" True]
  by (simp add: new_publisher_def ws_state_def ws_written_def enqueue_def QUEUE_CAP_def)

text \<open>
  An envelope on which \<^verbatim>\<open>JSON.stringify\<close> throws is discarded with an empty queue, the
  socket open or not.
\<close>

theorem publish_sends_or_enqueues_counterexample:
  "queue (publish (\<lambda>m. if m = ''cyclic'' then None else Some m) True
            (new_publisher :: string publisher) ''cyclic'') = []
   \<and> publish (\<lambda>m. if m = ''cyclic'' then None else Some m) True
        (new_publisher\<lparr>ws := Some 0,
           sockets := [\<lparr>sock_room = ''r'', sock_token = ''t'', readyState = OPEN,
                        onclose = True, written = []\<rparr>]\<rparr>) ''cyclic''
       = new_publisher\<lparr>ws := Some 0,
           sockets := [\<lparr>sock_room = ''r'', sock_token = ''t'', readyState = OPEN,
                        onclose = True, written = []\<rparr>]\<rparr>"
  by (simp add: publish_def new_publisher_def)

section \<open>Authorization failures\<close>

lemma fetchHubToken_401: "fetchHubToken (Response 401 tok) = \<lparr>token = None, isAuthError = True\<rparr>"
  by (simp add: fetchHubToken_def)

lemma connect_resume_auth_error:
  "falsy_token tr \<Longrightarrow> isAuthError tr \<Longrightarrow>
   connect_resume socket_ok w room tr =
     scheduleRetry (w\<lparr>isConnecting := False, authErrorBackoff := True\<rparr>) room
       (Some AUTH_ERROR_BACKOFF_MS)"
  by (simp add: connect_resume_def)

lemma connect_resume_other_error:
  "falsy_token tr \<Longrightarrow> \<not> isAuthError tr \<Longrightarrow>
   connect_resume socket_ok w room tr = scheduleRetry (w\<lparr>isConnecting := False\<rparr>) room None"
  by (simp add: connect_resume_def)

lemma scheduleRetry_flags:
  "authErrorBackoff (scheduleRetry w room ov) = authErrorBackoff w
   \<and> isConnecting (scheduleRetry w room ov) = isConnecting w
   \<and> currentRoom (scheduleRetry w room ov) = currentRoom w
   \<and> ws (scheduleRetry w room ov) = ws w
   \<and> queue (scheduleRetry w room ov) = queue w
   \<and> sockets (scheduleRetry w room ov) = sockets w"
  by (simp add: scheduleRetry_def clearRetryAlarm_def Let_def)

text \<open>
  Claim C2, as the code has it. A 401 from the token service sets \<^verbatim>\<open>authErrorBackoff\<close>
  and ends the attempt. Below 100 retries it creates the alarm with the fixed 60000
  milliseconds, whatever \<^verbatim>\<open>retryCount\<close> is, and increments \<^verbatim>\<open>retryCount\<close>; from 100
  retries on it leaves no alarm. A later failure that is not a 401, met with the count
  the 401 left, computes its delay from that incremented count: with \<open>n\<close> the count
  before the 401, the delay is \<open>min (1000 * 2 ^ (n + 1)) 10000\<close>.
\<close>

theorem auth_error_fixed_cooldown:
  "authErrorBackoff (connect_resume socket_ok w room (fetchHubToken (Response 401 tok)))
   \<and> \<not> isConnecting (connect_resume socket_ok w room (fetchHubToken (Response 401 tok)))
   \<and> (retryCount w < 100 \<longrightarrow>
        alarm (connect_resume socket_ok w room (fetchHubToken (Response 401 tok))) = Some 60000
        \<and> retryCount (connect_resume socket_ok w room (fetchHubToken (Response 401 tok)))
            = retryCount w + 1)
   \<and> (100 \<le> retryCount w \<longrightarrow>
        alarm (connect_resume socket_ok w room (fetchHubToken (Response 401 tok))) = None
        \<and> retryCount (connect_resume socket_ok w room (fetchHubToken (Response 401 tok)))
            = retryCount w)
   \<and> (retryCount w + 1 < 100
        \<and> retryCount v
            = retryCount (connect_resume socket_ok w room (fetchHubToken (Response 401 tok)))
        \<and> falsy_token tr \<and> \<not> isAuthError tr \<longrightarrow>
        alarm (connect_resume socket_ok' v room' tr)
          = Some (min (1000 * 2 ^ (retryCount w + 1)) 10000))"
proof -
  let ?w1 = "connect_resume socket_ok w room (fetchHubToken (Response 401 tok))"
  have w1: "?w1 = scheduleRetry (w\<lparr>isConnecting := False, authErrorBackoff := True\<rparr>) room
                    (Some AUTH_ERROR_BACKOFF_MS)"
    by (simp add: fetchHubToken_401 connect_resume_auth_error falsy_token_def)
  have flags: "authErrorBackoff ?w1 \<and> \<not> isConnecting ?w1"
    by (simp add: w1 scheduleRetry_flags)
  have below: "alarm ?w1 = Some 60000 \<and> retryCount ?w1 = retryCount w + 1"
    if "retryCount w < 100"
    using that by (simp add: w1 scheduleRetry_below AUTH_ERROR_BACKOFF_MS_def)
  have above: "alarm ?w1 = None \<and> retryCount ?w1 = retryCount w" if "100 \<le> retryCount w"
    using that by (simp add: w1 scheduleRetry_exhausted)
  have later: "alarm (connect_resume socket_ok' v room' tr)
                 = Some (min (1000 * 2 ^ (retryCount w + 1)) 10000)"
    if "retryCount w + 1 < 100" "retryCount v = retryCount ?w1" "falsy_token tr"
       "\<not> isAuthError tr"
  proof -
    have "retryCount v = retryCount w + 1"
      using that(1,2) below by simp
    then show ?thesis
      using that(1,3,4)
      by (simp add: connect_resume_other_error scheduleRetry_below retry_backoff_eq)
  qed
  show ?thesis
    using flags below above later by blast
qed

theorem auth_error_fixed_cooldown_witness:
  "alarm (connect_resume True ((new_publisher :: nat publisher)\<lparr>retryCount := 5\<rparr>) ''room''
            (fetchHubToken (Response 401 None))) = Some 60000
   \<and> alarm (connect_resume True ((new_publisher :: nat publisher)\<lparr>retryCount := 100\<rparr>) ''room''
            (fetchHubToken (Response 401 None))) = None
   \<and> alarm (connect_resume True ((new_publisher :: nat publisher)\<lparr>retryCount := 1\<rparr>) ''room''
            (fetchHubToken (Response 500 None))) = Some 2000"
  using auth_error_fixed_cooldown
          [of True "(new_publisher :: nat publisher)\<lparr>retryCount := 5\<rparr>" "''room''" None
              "(new_publisher :: nat publisher)\<lparr>retryCount := 6\<rparr>"
              "fetchHubToken (Response 500 None)" True "''room''"]
        auth_error_fixed_cooldown
          [of True "(new_publisher :: nat publisher)\<lparr>retryCount := 100\<rparr>" "''room''" None
              "(new_publisher :: nat publisher)\<lparr>retryCount := 6\<rparr>"
              "fetchHubToken (Response 500 None)" True "''room''"]
        auth_error_fixed_cooldown
          [of True "(new_publisher :: nat publisher)\<lparr>retryCount := 0\<rparr>" "''room''" None
              "(new_publisher :: nat publisher)\<lparr>retryCount := 1\<rparr>"
              "fetchHubToken (Response 500 None)" True "''room''"]
  by (simp add: new_publisher_def fetchHubToken_def falsy_token_def connect_resume_def
        scheduleRetry_def clearRetryAlarm_def MAX_RETRIES_def AUTH_ERROR_BACKOFF_MS_def
        retry_backoff_eq Let_def)

text \<open>
  From a new publisher: \<^verbatim>\<open>connect("room")\<close> meets a 401, which leaves the alarm at 60000
  and \<^verbatim>\<open>retryCount\<close> at 1; the alarm fires, and the attempt meets a 500, whose delay is
  2000. Computed from the count before the 401, the delay of the 500 is 1000. With
  \<^verbatim>\<open>retryCount\<close> at 100 a 401 leaves no alarm.
\<close>

theorem auth_error_fixed_cooldown_counterexample:
  "retryCount (connect_resume True (fst (connect_start (new_publisher :: nat publisher) ''room''))
       ''room'' (fetchHubToken (Response 401 None))) = 1
   \<and> alarm (connect_resume True
        (fst (onAlarm
           (connect_resume True (fst (connect_start (new_publisher :: nat publisher) ''room''))
              ''room'' (fetchHubToken (Response 401 None)))
           RETRY_ALARM_NAME))
        ''room'' (fetchHubToken (Response 500 None))) = Some 2000
   \<and> alarm (connect_resume True (fst (connect_start (new_publisher :: nat publisher) ''room''))
        ''room'' (fetchHubToken (Response 500 None))) = Some 1000
   \<and> alarm (connect_resume True
        ((new_publisher :: nat publisher)\<lparr>currentRoom := Some ''room'', retryCount := 100,
            isConnecting := True\<rparr>)
        ''room'' (fetchHubToken (Response 401 None))) = None"
  by (simp add: new_publisher_def connect_start_def connect_resume_def onAlarm_def
        fetchHubToken_def falsy_token_def scheduleRetry_def clearRetryAlarm_def disconnect_def
        ws_state_def retry_backoff_eq MAX_RETRIES_def AUTH_ERROR_BACKOFF_MS_def
        RETRY_ALARM_NAME_def Let_def)

section \<open>Duplicate suppression\<close>

lemma compareHands_absent: "\<not> compareHands a None \<and> \<not> compareHands None b"
  by (simp add: compareHands_def split: option.splits)

lemma compareHands_present:
  "compareHands (Some h) (Some prev) \<longleftrightarrow>
     value1 h = value1 prev \<and> suit1 h = suit1 prev \<and> value2 h = value2 prev \<and> suit2 h = suit2 prev"
  by (auto simp: compareHands_def)

lemma on_window_message_valid:
  assumes "from_window ev" and "data_type ev = ''FROM_PAGE''" and "data_text ev = JStr payload"
    and "payload \<noteq> []" and "json_parse payload = Object p" and "validate_hand p = Some h"
  shows "on_window_message json_parse now post_ok st ev =
           (if \<not> compareHands (Some h) (previousHand st)
            then fst (sendPortMessage post_ok (st\<lparr>checked := checked st @ [h]\<rparr>)
                        (HAND_DATA (hand_data_of h now)))
            else st)\<lparr>previousHand := Some h\<rparr>"
  using assms by (simp add: on_window_message_def Let_def)

text \<open>
  Claim C10. \<^verbatim>\<open>compareHands\<close> is false when either argument is absent. For a window
  message that passes every check of the listener, carrying the hand \<open>h\<close>: when no
  previous hand is recorded, \<open>h\<close> is given to \<^verbatim>\<open>checkRange\<close> and its HAND\_DATA message
  goes to \<^verbatim>\<open>sendPortMessage\<close>, which posts it or puts it last in the queue; the hand is
  suppressed (nothing checked, posted or queued) exactly when a previous hand is
  recorded whose two values and two suits equal those of \<open>h\<close>; and \<open>h\<close> becomes the
  previous hand.
\<close>

theorem first_hand_never_suppressed:
  assumes "from_window ev" and "data_type ev = ''FROM_PAGE''" and "data_text ev = JStr payload"
    and "payload \<noteq> []" and "json_parse payload = Object p" and "validate_hand p = Some h"
  shows "\<not> compareHands a None \<and> \<not> compareHands None b
     \<and> (previousHand st = None \<longrightarrow>
          checked (on_window_message json_parse now post_ok st ev) = checked st @ [h]
          \<and> (port st \<and> post_ok \<longrightarrow>
               posted (on_window_message json_parse now post_ok st ev)
                 = posted st @ [HAND_DATA (hand_data_of h now)])
          \<and> (\<not> (port st \<and> post_ok) \<longrightarrow>
               messageQueue (on_window_message json_parse now post_ok st ev) \<noteq> []
               \<and> last (messageQueue (on_window_message json_parse now post_ok st ev))
                   = HAND_DATA (hand_data_of h now)))
     \<and> ((checked (on_window_message json_parse now post_ok st ev) = checked st
          \<and> posted (on_window_message json_parse now post_ok st ev) = posted st
          \<and> messageQueue (on_window_message json_parse now post_ok st ev) = messageQueue st)
         \<longleftrightarrow> (\<exists>prev. previousHand st = Some prev
                \<and> value1 h = value1 prev \<and> suit1 h = suit1 prev
                \<and> value2 h = value2 prev \<and> suit2 h = suit2 prev))
     \<and> previousHand (on_window_message json_parse now post_ok st ev) = Some h"
proof -
  let ?st' = "on_window_message json_parse now post_ok st ev"
  let ?msg = "HAND_DATA (hand_data_of h now)"
  let ?sent = "fst (sendPortMessage post_ok (st\<lparr>checked := checked st @ [h]\<rparr>) ?msg)"
  have eq: "?st' = (if \<not> compareHands (Some h) (previousHand st) then ?sent else st)
                     \<lparr>previousHand := Some h\<rparr>"
    using assms by (rule on_window_message_valid)
  have cap: "0 < MESSAGE_QUEUE_CAP"
    by (simp add: MESSAGE_QUEUE_CAP_def)
  have processed: "checked ?st' = checked st @ [h]
      \<and> (port st \<and> post_ok \<longrightarrow> posted ?st' = posted st @ [?msg])
      \<and> (\<not> (port st \<and> post_ok) \<longrightarrow> messageQueue ?st' \<noteq> [] \<and> last (messageQueue ?st') = ?msg)"
    if "\<not> compareHands (Some h) (previousHand st)"
  proof -
    have s: "?st' = ?sent\<lparr>previousHand := Some h\<rparr>"
      using that by (simp add: eq)
    show ?thesis
    proof (cases "port st \<and> post_ok")
      case True
      then show ?thesis
        unfolding s
        using sendPortMessage_posted [of "st\<lparr>checked := checked st @ [h]\<rparr>" post_ok ?msg]
        by simp
    next
      case False
      then show ?thesis
        unfolding s
        using sendPortMessage_queued [of "st\<lparr>checked := checked st @ [h]\<rparr>" post_ok ?msg]
          push_evict_last [OF cap, of "messageQueue st" ?msg]
        by auto
    qed
  qed
  have suppressed: "checked ?st' = checked st \<and> posted ?st' = posted st
      \<and> messageQueue ?st' = messageQueue st"
    if "compareHands (Some h) (previousHand st)"
    using that by (simp add: eq)
  have first: "\<not> compareHands (Some h) (previousHand st)" if "previousHand st = None"
    using that by (simp add: compareHands_absent)
  have iff: "compareHands (Some h) (previousHand st) \<longleftrightarrow>
      (\<exists>prev. previousHand st = Some prev
          \<and> value1 h = value1 prev \<and> suit1 h = suit1 prev
          \<and> value2 h = value2 prev \<and> suit2 h = suit2 prev)"
    by (cases "previousHand st") (simp_all add: compareHands_absent compareHands_present)
  have grows: "checked ?st' \<noteq> checked st" if "\<not> compareHands (Some h) (previousHand st)"
    using processed [OF that] by simp
  have prev: "previousHand ?st' = Some h"
    by (simp add: eq)
  show ?thesis
    using compareHands_absent [of a b] processed first suppressed iff grows prev
    by blast
qed

theorem first_hand_never_suppressed_witness:
  "checked (on_window_message
      (\<lambda>t. if t = ''hand'' then Object \<lparr>p_value1 = JStr ''A'', p_suit1 = JStr ''s'',
                 p_value2 = JStr ''K'', p_suit2 = JStr ''h'', p_url = JStr ''https://host/games/abc123'',
                 p_playerId = JFalsy, p_playerName = JFalsy\<rparr> else ParseThrows)
      7 True initial_channel
      \<lparr>from_window = True, data_type = ''FROM_PAGE'', data_text = JStr ''hand''\<rparr>)
   = [\<lparr>value1 = ''A'', suit1 = ''s'', value2 = ''K'', suit2 = ''h'',
       url = JStr ''https://host/games/abc123'', playerId = JFalsy, playerName = JFalsy\<rparr>]
   \<and> messageQueue (on_window_message
      (\<lambda>t. if t = ''hand'' then Object \<lparr>p_value1 = JStr ''A'', p_suit1 = JStr ''s'',
                 p_value2 = JStr ''K'', p_suit2 = JStr ''h'', p_url = JStr ''https://host/games/abc123'',
                 p_playerId = JFalsy, p_playerName = JFalsy\<rparr> else ParseThrows)
      7 True initial_channel
      \<lparr>from_window = True, data_type = ''FROM_PAGE'', data_text = JStr ''hand''\<rparr>)
   = [HAND_DATA (hand_data_of
        \<lparr>value1 = ''A'', suit1 = ''s'', value2 = ''K'', suit2 = ''h'',
         url = JStr ''https://host/games/abc123'', playerId = JFalsy, playerName = JFalsy\<rparr> 7)]"
  using first_hand_never_suppressed
    [where ev = "\<lparr>from_window = True, data_type = ''FROM_PAGE'', data_text = JStr ''hand''\<rparr>"
       and payload = "''hand''"
       and json_parse = "\<lambda>t. if t = ''hand'' then Object \<lparr>p_value1 = JStr ''A'', p_suit1 = JStr ''s'',
                 p_value2 = JStr ''K'', p_suit2 = JStr ''h'', p_url = JStr ''https://host/games/abc123'',
                 p_playerId = JFalsy, p_playerName = JFalsy\<rparr> else ParseThrows"
       and p = "\<lparr>p_value1 = JStr ''A'', p_suit1 = JStr ''s'',
                 p_value2 = JStr ''K'', p_suit2 = JStr ''h'', p_url = JStr ''https://host/games/abc123'',
                 p_playerId = JFalsy, p_playerName = JFalsy\<rparr>"
       and h = "\<lparr>value1 = ''A'', suit1 = ''s'', value2 = ''K'', suit2 = ''h'',
         url = JStr ''https://host/games/abc123'', playerId = JFalsy, playerName = JFalsy\<rparr>"
       and st = "initial_channel :: port_message channel" and now = 7 and post_ok = True
       and a = None and b = None]
  by (simp add: validate_hand_def initial_channel_def on_window_message_def compareHands_def
        sendPortMessage_def queue_and_reconnect_def enqueueMessage_def scheduleReconnect_def
        MESSAGE_QUEUE_CAP_def MAX_RECONNECT_ATTEMPTS_def Let_def)

section \<open>Publisher identities\<close>

lemma hex_digit_inj: "hex_digit a = hex_digit b \<longleftrightarrow> a mod 16 = b mod 16"
proof -
  have d: "distinct ''0123456789abcdef''" by simp
  have "a mod 16 < length ''0123456789abcdef''" "b mod 16 < length ''0123456789abcdef''"
    by simp_all
  then show ?thesis
    unfolding hex_digit_def using d by (simp only: nth_eq_iff_index_eq)
qed

lemma hex_digit_y:
  "hex_digit (a mod 4 + 8) = hex_digit (b mod 4 + 8) \<longleftrightarrow> a mod 4 + 8 = b mod 4 + (8::nat)"
proof -
  have "(a mod 4 + 8) mod 16 = a mod 4 + 8" "(b mod 4 + 8) mod 16 = b mod 4 + 8"
    by (simp_all add: mod_less)
  then show ?thesis
    by (simp add: hex_digit_inj)
qed

lemma uuid_fill_eq_iff:
  "uuid_fill r1 k t = uuid_fill r2 k t \<longleftrightarrow> uuid_draws r1 k t = uuid_draws r2 k t"
  by (induction t arbitrary: k) (simp_all add: hex_digit_inj hex_digit_y)

lemma generateUUID_eq_iff:
  "generateUUID r1 = generateUUID r2 \<longleftrightarrow> uuid_digits r1 = uuid_digits r2"
  by (simp only: generateUUID_def uuid_digits_def uuid_fill_eq_iff)

lemma generateUUID_length: "length (generateUUID rnd) = 36"
  by (simp add: generateUUID_def)

lemma generateUUID_nonempty: "generateUUID rnd \<noteq> []"
  using generateUUID_length [of rnd] by auto

lemma get_property_own: "m room = Some u \<Longrightarrow> get_property m room = JStr u"
  by (simp add: get_property_def)

lemma callback_absent:
  "(m room = None \<and> room \<notin> set object_prototype_members) \<or> m room = Some [] \<Longrightarrow>
   publisherId_callback m room fresh = (JStr fresh, Some (m(room \<mapsto> fresh)))"
  by (auto simp: publisherId_callback_def get_property_def Let_def)

lemma callback_present:
  "m room = Some u \<Longrightarrow> u \<noteq> [] \<Longrightarrow> publisherId_callback m room fresh = (JStr u, None)"
  by (simp add: publisherId_callback_def get_property_def)

lemma callback_inherited:
  "m room = None \<Longrightarrow> room \<in> set object_prototype_members \<Longrightarrow>
   publisherId_callback m room fresh = (JTruthy, None)"
  by (simp add: publisherId_callback_def get_property_def)

lemma getPublisherId_absent:
  "(publisherIds w room = None \<and> room \<notin> set object_prototype_members)
     \<or> publisherIds w room = Some [] \<Longrightarrow>
   getPublisherId rnd w room
     = (JStr (generateUUID rnd),
        w\<lparr>publisherIds := (publisherIds w)(room \<mapsto> generateUUID rnd)\<rparr>)"
  by (simp add: getPublisherId_def callback_absent)

lemma getPublisherId_present:
  "publisherIds w room = Some u \<Longrightarrow> u \<noteq> [] \<Longrightarrow> getPublisherId rnd w room = (JStr u, w)"
  by (simp add: getPublisherId_def callback_present)

lemma getPublisherId_inherited:
  "publisherIds w room = None \<Longrightarrow> room \<in> set object_prototype_members \<Longrightarrow>
   getPublisherId rnd w room = (JTruthy, w)"
  by (simp add: getPublisherId_def callback_inherited)

lemma getPublisherId_stored:
  assumes "room \<notin> set object_prototype_members"
  shows "\<exists>u. u \<noteq> [] \<and> fst (getPublisherId rnd w room) = JStr u
           \<and> publisherIds (snd (getPublisherId rnd w room)) room = Some u"
proof (cases "publisherIds w room = None \<or> publisherIds w room = Some []")
  case True
  then show ?thesis
    using assms by (auto simp: getPublisherId_absent generateUUID_nonempty)
next
  case False
  then obtain u where "publisherIds w room = Some u" "u \<noteq> []" by auto
  then show ?thesis
    by (simp add: getPublisherId_present)
qed

lemma getPublisherId_twice:
  assumes "room \<notin> set object_prototype_members"
  shows "getPublisherId rnd2 (snd (getPublisherId rnd1 w room)) room
           = (fst (getPublisherId rnd1 w room), snd (getPublisherId rnd1 w room))"
proof -
  from getPublisherId_stored [OF assms, of rnd1 w] obtain u where
    "u \<noteq> []" "fst (getPublisherId rnd1 w room) = JStr u"
    "publisherIds (snd (getPublisherId rnd1 w room)) room = Some u"
    by blast
  then show ?thesis
    by (simp add: getPublisherId_present)
qed

lemma getPublisherId_keeps:
  assumes "publisherIds w r = Some u" and "u \<noteq> []"
  shows "publisherIds (snd (getPublisherId rnd w room)) r = Some u"
proof (cases "publisherIds w room")
  case None
  then have ne: "r \<noteq> room" using assms by auto
  show ?thesis
  proof (cases "room \<in> set object_prototype_members")
    case True
    then show ?thesis
      using None assms by (simp add: getPublisherId_inherited)
  next
    case False
    then show ?thesis
      using None ne assms by (simp add: getPublisherId_absent)
  qed
next
  case (Some v)
  show ?thesis
  proof (cases "v = []")
    case True
    then have "r \<noteq> room" using Some assms by auto
    then show ?thesis
      using Some True assms by (simp add: getPublisherId_absent)
  next
    case False
    then show ?thesis
      using Some assms by (simp add: getPublisherId_present)
  qed
qed

text \<open>
  Claim C9, as the code has it, for rooms that are not named like a member of
  \<^verbatim>\<open>Object.prototype\<close>. Let a second call of \<^verbatim>\<open>getPublisherId\<close> for such a room read
  the storage after a first call for that room has written it. Then the second call
  returns the identity the first one returned and changes nothing; that identity is a
  string, not empty, and is the one stored for the room; if nothing was stored for the
  room it is the UUID \<^verbatim>\<open>generateUUID\<close> made at the first call. A call for any room
  leaves every stored, non-empty identity of any room as it is. For two different such
  rooms with nothing stored, resolved one after the other, the two identities are equal
  exactly when the two runs of \<^verbatim>\<open>generateUUID\<close> drew the same digits.
\<close>

theorem identity_resolution_sequential:
  "(room \<notin> set object_prototype_members \<longrightarrow>
      getPublisherId rnd2 (snd (getPublisherId rnd1 w room)) room
        = (fst (getPublisherId rnd1 w room), snd (getPublisherId rnd1 w room))
      \<and> (\<exists>u. u \<noteq> [] \<and> fst (getPublisherId rnd1 w room) = JStr u
              \<and> publisherIds (snd (getPublisherId rnd1 w room)) room = Some u)
      \<and> (publisherIds w room = None \<longrightarrow>
            fst (getPublisherId rnd1 w room) = JStr (generateUUID rnd1)))
   \<and> (publisherIds w r = Some u \<and> u \<noteq> [] \<longrightarrow>
        publisherIds (snd (getPublisherId rnd1 w room)) r = Some u)
   \<and> (room \<noteq> room' \<and> room \<notin> set object_prototype_members
        \<and> room' \<notin> set object_prototype_members
        \<and> publisherIds w room = None \<and> publisherIds w room' = None \<longrightarrow>
        (fst (getPublisherId rnd1 w room)
           = fst (getPublisherId rnd2 (snd (getPublisherId rnd1 w room)) room'))
        = (uuid_digits rnd1 = uuid_digits rnd2))"
proof -
  have first: "fst (getPublisherId rnd1 w room) = JStr (generateUUID rnd1)"
    if "room \<notin> set object_prototype_members" "publisherIds w room = None"
    using that by (simp add: getPublisherId_absent)
  have two: "(fst (getPublisherId rnd1 w room)
           = fst (getPublisherId rnd2 (snd (getPublisherId rnd1 w room)) room'))
        = (uuid_digits rnd1 = uuid_digits rnd2)"
    if "room \<noteq> room'" "room \<notin> set object_prototype_members"
       "room' \<notin> set object_prototype_members"
       "publisherIds w room = None" "publisherIds w room' = None"
  proof -
    have "publisherIds (snd (getPublisherId rnd1 w room)) room' = None"
      using that by (simp add: getPublisherId_absent)
    then have "fst (getPublisherId rnd2 (snd (getPublisherId rnd1 w room)) room')
        = JStr (generateUUID rnd2)"
      using that(3) by (simp add: getPublisherId_absent)
    then show ?thesis
      using first [OF that(2,4)] by (simp add: generateUUID_eq_iff)
  qed
  have twice: "getPublisherId rnd2 (snd (getPublisherId rnd1 w room)) room
        = (fst (getPublisherId rnd1 w room), snd (getPublisherId rnd1 w room))"
    if "room \<notin> set object_prototype_members"
    using that by (rule getPublisherId_twice)
  have stored: "\<exists>u. u \<noteq> [] \<and> fst (getPublisherId rnd1 w room) = JStr u
              \<and> publisherIds (snd (getPublisherId rnd1 w room)) room = Some u"
    if "room \<notin> set object_prototype_members"
    using that by (rule getPublisherId_stored)
  have keeps: "publisherIds (snd (getPublisherId rnd1 w room)) r = Some u"
    if "publisherIds w r = Some u" "u \<noteq> []"
    using that by (rule getPublisherId_keeps)
  show ?thesis
    using twice stored first keeps two by blast
qed

lemmas identity_eval = getPublisherId_def publisherId_callback_def get_property_def
  object_prototype_members_def generateUUID_def hex_digit_def new_publisher_def

theorem identity_resolution_sequential_witness:
  "fst (getPublisherId (\<lambda>k. 1) (snd (getPublisherId (\<lambda>k. 0) (new_publisher :: nat publisher) ''a'')) ''a'')
     = JStr ''00000000-0000-4000-8000-000000000000''
   \<and> fst (getPublisherId (\<lambda>k. 1) (snd (getPublisherId (\<lambda>k. 0) (new_publisher :: nat publisher) ''a'')) ''b'')
     = JStr ''11111111-1111-4111-9111-111111111111''"
  using identity_resolution_sequential
    [of "''a''" "\<lambda>k. 1" "\<lambda>k. 0" "new_publisher :: nat publisher" "''a''"
        "''00000000-0000-4000-8000-000000000000''" "''b''"]
  by (simp add: identity_eval)

text \<open>
  Two runs of \<^verbatim>\<open>generateUUID\<close> that draw the same digits give two rooms the same
  identity. Two calls for one room that both read the storage before either writes
  return two different identities, and the second write replaces the identity the
  first call returned. For the room \<^verbatim>\<open>"constructor"\<close> with nothing stored, the call
  resolves to the inherited member, which is no string, and stores nothing.
\<close>

theorem identity_resolution_sequential_counterexample:
  "fst (getPublisherId (\<lambda>k. 0) (new_publisher :: nat publisher) ''a'')
     = fst (getPublisherId (\<lambda>k. 0)
              (snd (getPublisherId (\<lambda>k. 0) (new_publisher :: nat publisher) ''a'')) ''b'')
   \<and> fst (getPublisherId_overlapping (\<lambda>k. 0) (\<lambda>k. 1) (new_publisher :: nat publisher)
          ''room'' ''room'')
     = (JStr ''00000000-0000-4000-8000-000000000000'',
        JStr ''11111111-1111-4111-9111-111111111111'')
   \<and> publisherIds (snd (getPublisherId_overlapping (\<lambda>k. 0) (\<lambda>k. 1)
          (new_publisher :: nat publisher) ''room'' ''room'')) ''room''
     = Some ''11111111-1111-4111-9111-111111111111''
   \<and> fst (getPublisherId (\<lambda>k. 0) (new_publisher :: nat publisher) ''constructor'') = JTruthy
   \<and> publisherIds (snd (getPublisherId (\<lambda>k. 0) (new_publisher :: nat publisher)
          ''constructor'')) ''constructor'' = None"
  by (simp add: identity_eval getPublisherId_overlapping_def Let_def)

section \<open>Switching rooms\<close>

lemma disconnect_fields:
  "alarm (disconnect w) = None \<and> ws (disconnect w) = None \<and> \<not> isConnecting (disconnect w)
   \<and> queue (disconnect w) = queue w \<and> retryCount (disconnect w) = retryCount w
   \<and> currentRoom (disconnect w) = currentRoom w
   \<and> authErrorBackoff (disconnect w) = authErrorBackoff w
   \<and> publisherIds (disconnect w) = publisherIds w
   \<and> length (sockets (disconnect w)) = length (sockets w)"
  by (simp add: disconnect_def clearRetryAlarm_def Let_def split: option.splits)

lemma ws_state_no_socket: "ws w = None \<Longrightarrow> ws_state w = None"
  by (simp add: ws_state_def)

lemma connect_start_switch:
  assumes "room \<noteq> []" and "currentRoom w \<noteq> Some room"
  shows "connect_start w room =
           ((disconnect w)\<lparr>currentRoom := Some room, retryCount := 0, authErrorBackoff := False,
                            isConnecting := True, alarm := None\<rparr>, True)"
  using assms
  by (simp add: connect_start_def Let_def disconnect_fields ws_state_no_socket clearRetryAlarm_def)

lemma connect_start_open_same:
  "currentRoom w = Some room \<Longrightarrow> ws_state w = Some OPEN \<Longrightarrow> connect_start w room = (w, False)"
  by (simp add: connect_start_def)

lemma disconnect_socket:
  "ws w = Some i \<Longrightarrow> i < length (sockets w) \<Longrightarrow>
   sockets (disconnect w) ! i = close_socket ((sockets w ! i)\<lparr>onclose := False\<rparr>)"
  by (simp add: disconnect_def clearRetryAlarm_def Let_def)

lemma close_socket_state:
  "readyState (close_socket s) \<noteq> CONNECTING \<and> readyState (close_socket s) \<noteq> OPEN
   \<and> onclose (close_socket s) = onclose s \<and> written (close_socket s) = written s
   \<and> sock_room (close_socket s) = sock_room s"
  by (simp add: close_socket_def)

lemma onAlarm_current:
  "currentRoom v = Some r \<Longrightarrow> onAlarm v RETRY_ALARM_NAME = connect_start (v\<lparr>alarm := None\<rparr>) r"
  by (simp add: onAlarm_def Let_def)

lemma frame_fields:
  "sockets v' = sockets v \<Longrightarrow> currentRoom v' = currentRoom v \<Longrightarrow> ws v' = ws v \<or> ws v' = None
   \<Longrightarrow> frame v v'"
  by (simp add: frame_def)

lemma frame_trans:
  assumes ab: "frame a b" and bc: "frame b c"
  shows "frame a c"
proof -
  have len: "length (sockets b) = length (sockets a)" "length (sockets c) = length (sockets b)"
    using ab bc by (simp_all add: frame_def)
  have room: "currentRoom c = currentRoom a"
    using ab bc by (simp add: frame_def)
  have wsc: "ws c = ws a \<or> ws c = None"
    using ab bc unfolding frame_def by auto
  have wsb: "ws b = ws a \<or> ws b = None"
    using ab unfolding frame_def by auto
  have sock: "sock_room (sockets c ! j) = sock_room (sockets a ! j)
           \<and> (onclose (sockets c ! j) \<longrightarrow> onclose (sockets a ! j))
           \<and> (readyState (sockets c ! j) = CONNECTING \<or> readyState (sockets c ! j) = OPEN
                \<longrightarrow> readyState (sockets a ! j) = CONNECTING \<or> readyState (sockets a ! j) = OPEN)
           \<and> (written (sockets c ! j) \<noteq> written (sockets a ! j) \<longrightarrow> ws a = Some j)"
    if j: "j < length (sockets a)" for j
  proof -
    have 1: "sock_room (sockets b ! j) = sock_room (sockets a ! j)"
      "onclose (sockets b ! j) \<longrightarrow> onclose (sockets a ! j)"
      "readyState (sockets b ! j) = CONNECTING \<or> readyState (sockets b ! j) = OPEN
                \<longrightarrow> readyState (sockets a ! j) = CONNECTING \<or> readyState (sockets a ! j) = OPEN"
      "written (sockets b ! j) \<noteq> written (sockets a ! j) \<longrightarrow> ws a = Some j"
      using ab j unfolding frame_def by blast+
    have jb: "j < length (sockets b)" using j len by simp
    have 2: "sock_room (sockets c ! j) = sock_room (sockets b ! j)"
      "onclose (sockets c ! j) \<longrightarrow> onclose (sockets b ! j)"
      "readyState (sockets c ! j) = CONNECTING \<or> readyState (sockets c ! j) = OPEN
                \<longrightarrow> readyState (sockets b ! j) = CONNECTING \<or> readyState (sockets b ! j) = OPEN"
      "written (sockets c ! j) \<noteq> written (sockets b ! j) \<longrightarrow> ws b = Some j"
      using bc jb unfolding frame_def by blast+
    show ?thesis
      using 1 2 wsb by auto
  qed
  show ?thesis
    unfolding frame_def using len room wsc sock by simp
qed

lemma frame_scheduleRetry: "frame v (scheduleRetry v r ov)"
  by (rule frame_fields) (simp_all add: scheduleRetry_flags)

lemma frame_enqueue: "frame v (enqueue v m)"
  by (rule frame_fields) (simp_all add: enqueue_def Let_def)

lemma frame_ws_send: "frame v (ws_send v s)"
proof (cases "ws v")
  case None
  then show ?thesis by (simp add: ws_send_def frame_fields)
next
  case (Some a)
  show ?thesis
  proof (cases "a < length (sockets v)")
    case True
    then show ?thesis
      using Some by (auto simp: frame_def ws_send_def nth_list_update)
  next
    case False
    then have "sockets (ws_send v s) = sockets v" "currentRoom (ws_send v s) = currentRoom v"
      "ws (ws_send v s) = ws v"
      using Some by (simp_all add: ws_send_def list_update_beyond)
    then show ?thesis
      by (simp add: frame_fields)
  qed
qed

lemma frame_publish: "frame v (publish sf ok v m)"
  by (cases "sf m") (simp_all add: publish_def frame_fields frame_ws_send frame_enqueue)

lemma frame_flushQueue: "frame v (flushQueue sf ok v)"
proof (cases "ws_state v = Some OPEN")
  case False
  then show ?thesis by (simp add: flushQueue_def frame_fields)
next
  case True
  then obtain i where "ws v = Some i" "i < length (sockets v)"
    using ws_state_OPEN by blast
  then show ?thesis
    using True
    by (auto simp: flushQueue_def frame_def nth_list_update Let_def split: prod.splits)
qed

lemma frame_socket_open: "frame v (socket_open sf ok v i)"
proof (cases "i < length (sockets v) \<and> readyState (sockets v ! i) = CONNECTING")
  case False
  then show ?thesis by (auto simp: socket_open_def frame_fields)
next
  case True
  let ?v1 = "v\<lparr>sockets := (sockets v)[i := (sockets v ! i)\<lparr>readyState := OPEN\<rparr>],
                isConnecting := False, retryCount := 0\<rparr>"
  have "frame v ?v1"
    using True by (auto simp: frame_def nth_list_update)
  moreover have "frame ?v1 (flushQueue sf ok ?v1)"
    by (rule frame_flushQueue)
  moreover have "socket_open sf ok v i = flushQueue sf ok ?v1"
    using True by (simp add: socket_open_def Let_def)
  ultimately show ?thesis
    by (simp add: frame_trans)
qed

lemma frame_socket_close: "frame v (socket_close v i)"
proof (cases "i < length (sockets v) \<and> readyState (sockets v ! i) \<noteq> CLOSED")
  case False
  then show ?thesis by (auto simp: socket_close_def frame_fields)
next
  case True
  let ?v1 = "v\<lparr>sockets := (sockets v)[i := (sockets v ! i)\<lparr>readyState := CLOSED\<rparr>]\<rparr>"
  have 1: "frame v ?v1"
    using True by (auto simp: frame_def nth_list_update)
  show ?thesis
  proof (cases "onclose (sockets v ! i)")
    case False
    then show ?thesis
      using True 1 by (simp add: socket_close_def Let_def)
  next
    case h: True
    let ?v2 = "?v1\<lparr>isConnecting := False, ws := None\<rparr>"
    have 2: "frame v ?v2"
      using True by (auto simp: frame_def nth_list_update)
    have "socket_close v i = scheduleRetry ?v2 (sock_room (sockets v ! i)) None"
      using True h by (simp add: socket_close_def Let_def)
    then show ?thesis
      using frame_trans [OF 2 frame_scheduleRetry [of ?v2]] by simp
  qed
qed

lemma frame_socket_error: "frame v (socket_error v i)"
  by (simp add: socket_error_def onerror_def frame_socket_close)

lemma frame_connect_start_same:
  "currentRoom v = Some room \<Longrightarrow> frame v (fst (connect_start v room))"
  by (rule frame_fields) (auto simp: connect_start_def clearRetryAlarm_def Let_def)

lemma frame_onAlarm: "frame v (fst (onAlarm v name))"
proof (cases "name = RETRY_ALARM_NAME")
  case False
  then show ?thesis by (simp add: onAlarm_def frame_fields)
next
  case True
  show ?thesis
  proof (cases "currentRoom v")
    case None
    then show ?thesis using True by (simp add: onAlarm_def frame_fields Let_def)
  next
    case (Some r)
    have "frame v (v\<lparr>alarm := None\<rparr>)"
      by (rule frame_fields) simp_all
    moreover have "frame (v\<lparr>alarm := None\<rparr>) (fst (connect_start (v\<lparr>alarm := None\<rparr>) r))"
      using Some by (intro frame_connect_start_same) simp
    moreover have "onAlarm v name = connect_start (v\<lparr>alarm := None\<rparr>) r"
      using True Some by (simp add: onAlarm_def Let_def)
    ultimately show ?thesis
      by (simp add: frame_trans)
  qed
qed

lemma frame_connect_rejected: "frame v (connect_rejected v r)"
proof -
  have "frame v (v\<lparr>isConnecting := False\<rparr>)"
    by (rule frame_fields) simp_all
  then show ?thesis
    unfolding connect_rejected_def
    by (rule frame_trans) (rule frame_scheduleRetry)
qed

lemma connect_resume_cases:
  "frame v (connect_resume sok v room tr)
   \<or> (currentRoom (connect_resume sok v room tr) = currentRoom v
      \<and> (\<exists>s. sockets (connect_resume sok v room tr) = sockets v @ [s] \<and> sock_room s = room)
      \<and> ws (connect_resume sok v room tr) = Some (length (sockets v)))"
proof (cases "falsy_token tr")
  case True
  have a: "frame v (v\<lparr>isConnecting := False\<rparr>)"
    "frame v (v\<lparr>isConnecting := False, authErrorBackoff := True\<rparr>)"
    by (rule frame_fields, simp_all)+
  show ?thesis
  proof (cases "isAuthError tr")
    case t: True
    then have "connect_resume sok v room tr
        = scheduleRetry (v\<lparr>isConnecting := False, authErrorBackoff := True\<rparr>) room
            (Some AUTH_ERROR_BACKOFF_MS)"
      using True by (simp add: connect_resume_auth_error)
    then show ?thesis
      using frame_trans [OF a(2) frame_scheduleRetry] by simp
  next
    case f: False
    then have "connect_resume sok v room tr = scheduleRetry (v\<lparr>isConnecting := False\<rparr>) room None"
      using True by (simp add: connect_resume_other_error)
    then show ?thesis
      using frame_trans [OF a(1) frame_scheduleRetry] by simp
  qed
next
  case False
  show ?thesis
  proof (cases sok)
    case True
    then show ?thesis
      using False by (simp add: connect_resume_def Let_def)
  next
    case f: False
    have b: "frame v (v\<lparr>authErrorBackoff := False, isConnecting := False\<rparr>)"
      by (rule frame_fields) simp_all
    have "connect_resume sok v room tr
        = scheduleRetry (v\<lparr>authErrorBackoff := False, isConnecting := False\<rparr>) room None"
      using False f by (simp add: connect_resume_def Let_def)
    then show ?thesis
      using frame_trans [OF b frame_scheduleRetry] by simp
  qed
qed


lemma after_switch_frame:
  assumes inv: "after_switch room old (v, P)" and fr: "frame v v'"
    and P': "\<forall>r \<in> set P'. r = room"
  shows "after_switch room old (v', P')"
proof -
  have len: "length (sockets v') = length (sockets v)" and cr: "currentRoom v' = currentRoom v"
    and wsv: "ws v' = ws v \<or> ws v' = None"
    using fr by (simp_all add: frame_def)
  have old_le: "length old \<le> length (sockets v)"
    using inv by (simp add: after_switch_def)
  have wsi: "length old \<le> j \<and> j < length (sockets v)" if "ws v = Some j" for j
    using inv that by (simp add: after_switch_def)
  have olds: "written (sockets v' ! j) = written (old ! j)
              \<and> (onclose (sockets v' ! j) \<longrightarrow> onclose (old ! j))
              \<and> (readyState (sockets v' ! j) = CONNECTING \<or> readyState (sockets v' ! j) = OPEN
                   \<longrightarrow> readyState (old ! j) = CONNECTING \<or> readyState (old ! j) = OPEN)"
    if j: "j < length old" for j
  proof -
    have jv: "j < length (sockets v)" using j old_le by simp
    have a: "written (sockets v ! j) = written (old ! j)"
      "onclose (sockets v ! j) \<longrightarrow> onclose (old ! j)"
      "readyState (sockets v ! j) = CONNECTING \<or> readyState (sockets v ! j) = OPEN
                   \<longrightarrow> readyState (old ! j) = CONNECTING \<or> readyState (old ! j) = OPEN"
      using inv j unfolding after_switch_def by auto
    have b: "onclose (sockets v' ! j) \<longrightarrow> onclose (sockets v ! j)"
      "readyState (sockets v' ! j) = CONNECTING \<or> readyState (sockets v' ! j) = OPEN
                \<longrightarrow> readyState (sockets v ! j) = CONNECTING \<or> readyState (sockets v ! j) = OPEN"
      "written (sockets v' ! j) \<noteq> written (sockets v ! j) \<longrightarrow> ws v = Some j"
      using fr jv unfolding frame_def by blast+
    have "ws v \<noteq> Some j"
      using wsi [of j] j by auto
    then show ?thesis
      using a b by auto
  qed
  have news: "sock_room (sockets v' ! j) = room" if "length old \<le> j" "j < length (sockets v')" for j
  proof -
    have jv: "j < length (sockets v)" using that len by simp
    have "sock_room (sockets v' ! j) = sock_room (sockets v ! j)"
      using fr jv unfolding frame_def by blast
    moreover have "sock_room (sockets v ! j) = room"
      using inv that(1) jv unfolding after_switch_def by auto
    ultimately show ?thesis by simp
  qed
  have ws': "length old \<le> j \<and> j < length (sockets v')" if "ws v' = Some j" for j
    using that wsv wsi [of j] len by auto
  have "currentRoom v' = Some room"
    using inv cr by (simp add: after_switch_def)
  then show ?thesis
    unfolding after_switch_def using P' old_le len olds news ws' by simp
qed

lemma after_switch_new_socket:
  assumes inv: "after_switch room old (v, P)" and cr: "currentRoom v' = currentRoom v"
    and so: "sockets v' = sockets v @ [s]" and sr: "sock_room s = room"
    and wsn: "ws v' = Some (length (sockets v))" and P': "\<forall>r \<in> set P'. r = room"
  shows "after_switch room old (v', P')"
proof -
  have old_le: "length old \<le> length (sockets v)"
    using inv by (simp add: after_switch_def)
  have olds: "written (sockets v' ! j) = written (old ! j)
              \<and> (onclose (sockets v' ! j) \<longrightarrow> onclose (old ! j))
              \<and> (readyState (sockets v' ! j) = CONNECTING \<or> readyState (sockets v' ! j) = OPEN
                   \<longrightarrow> readyState (old ! j) = CONNECTING \<or> readyState (old ! j) = OPEN)"
    if j: "j < length old" for j
  proof -
    have jv: "j < length (sockets v)" using j old_le by simp
    then have "sockets v' ! j = sockets v ! j"
      by (simp add: so nth_append)
    then show ?thesis
      using inv j unfolding after_switch_def by auto
  qed
  have news: "sock_room (sockets v' ! j) = room" if "length old \<le> j" "j < length (sockets v')" for j
  proof (cases "j < length (sockets v)")
    case True
    then have "sockets v' ! j = sockets v ! j"
      by (simp add: so nth_append)
    then show ?thesis
      using inv that(1) True unfolding after_switch_def by auto
  next
    case False
    then have "j = length (sockets v)"
      using that(2) so by simp
    then show ?thesis
      by (simp add: so sr)
  qed
  have "currentRoom v' = Some room"
    using inv cr by (simp add: after_switch_def)
  then show ?thesis
    unfolding after_switch_def using P' old_le so olds news wsn by simp
qed

lemma after_switch_step:
  assumes inv: "after_switch room old s" and ev: "\<forall>r. ev = Connect r \<longrightarrow> r = room"
  shows "after_switch room old (step sf s ev)"
proof -
  obtain v P where s: "s = (v, P)" by (cases s)
  have inv': "after_switch room old (v, P)" using inv s by simp
  have P: "\<forall>r \<in> set P. r = room" and cr: "currentRoom v = Some room"
    using inv' by (simp_all add: after_switch_def)
  have Pk: "\<forall>r \<in> set (take k P @ drop (Suc k) P). r = room" for k
    using P by (auto dest: in_set_takeD in_set_dropD)
  show ?thesis
  proof (cases ev)
    case (Connect r)
    then have r: "r = room" using ev by simp
    obtain v' reached where c: "connect_start v room = (v', reached)"
      by (cases "connect_start v room")
    have f: "frame v v'"
      using frame_connect_start_same [OF cr] c by simp
    have q: "\<forall>x \<in> set (if reached then P @ [room] else P). x = room"
      using P by simp
    have "after_switch room old (v', if reached then P @ [room] else P)"
      by (rule after_switch_frame [OF inv' f q])
    then show ?thesis
      using s Connect r c by simp
  next
    case (TokenArrives k tr sok)
    show ?thesis
    proof (cases "k < length P")
      case False
      then show ?thesis using s TokenArrives inv' by simp
    next
      case True
      then have pk: "P ! k = room" using P by simp
      let ?v' = "connect_resume sok v room tr"
      have "after_switch room old (?v', take k P @ drop (Suc k) P)"
        using connect_resume_cases [of v sok room tr]
      proof
        assume f: "frame v ?v'"
        show ?thesis
          by (rule after_switch_frame [OF inv' f Pk])
      next
        assume a: "currentRoom ?v' = currentRoom v
            \<and> (\<exists>s. sockets ?v' = sockets v @ [s] \<and> sock_room s = room)
            \<and> ws ?v' = Some (length (sockets v))"
        then obtain x where x: "sockets ?v' = sockets v @ [x]" "sock_room x = room" by blast
        from a have a1: "currentRoom ?v' = currentRoom v"
          and a2: "ws ?v' = Some (length (sockets v))" by simp_all
        show ?thesis
          by (rule after_switch_new_socket [OF inv' a1 x(1) x(2) a2 Pk])
      qed
      then show ?thesis
        using s TokenArrives True pk by simp
    qed
  next
    case (IdentityRejected k)
    show ?thesis
    proof (cases "k < length P")
      case False
      then show ?thesis using s IdentityRejected inv' by simp
    next
      case True
      have "after_switch room old (connect_rejected v (P ! k), take k P @ drop (Suc k) P)"
        by (rule after_switch_frame [OF inv' frame_connect_rejected Pk])
      then show ?thesis
        using s IdentityRejected True by simp
    qed
  next
    case (SocketOpens i ok)
    have "after_switch room old (socket_open sf ok v i, P)"
      by (rule after_switch_frame [OF inv' frame_socket_open P])
    then show ?thesis using s SocketOpens by simp
  next
    case (SocketCloses i)
    have "after_switch room old (socket_close v i, P)"
      by (rule after_switch_frame [OF inv' frame_socket_close P])
    then show ?thesis using s SocketCloses by simp
  next
    case (SocketErrors i)
    have "after_switch room old (socket_error v i, P)"
      by (rule after_switch_frame [OF inv' frame_socket_error P])
    then show ?thesis using s SocketErrors by simp
  next
    case AlarmFires
    show ?thesis
    proof (cases "alarm v")
      case None
      then show ?thesis using s AlarmFires inv' by simp
    next
      case (Some b)
      obtain v' reached where c: "onAlarm v RETRY_ALARM_NAME = (v', reached)"
        by (cases "onAlarm v RETRY_ALARM_NAME")
      have f: "frame v v'"
        using frame_onAlarm [of v RETRY_ALARM_NAME] c by simp
      have q: "\<forall>x \<in> set (if reached then P @ [the (currentRoom v)] else P). x = room"
        using P cr by simp
      have "after_switch room old (v', if reached then P @ [the (currentRoom v)] else P)"
        by (rule after_switch_frame [OF inv' f q])
      then show ?thesis
        using s AlarmFires Some c by simp
    qed
  next
    case (Publish m ok)
    have "after_switch room old (publish sf ok v m, P)"
      by (rule after_switch_frame [OF inv' frame_publish P])
    then show ?thesis using s Publish by simp
  qed
qed

lemma after_switch_run:
  "after_switch room old s \<Longrightarrow> \<forall>r. Connect r \<in> set es \<longrightarrow> r = room \<Longrightarrow>
   after_switch room old (run sf s es)"
proof (induction es arbitrary: s)
  case Nil
  then show ?case by (simp add: run_def)
next
  case (Cons e es)
  have "after_switch room old (step sf s e)"
    using Cons.prems by (intro after_switch_step) auto
  then have "after_switch room old (run sf (step sf s e) es)"
    using Cons.prems(2) by (intro Cons.IH) auto
  then show ?case
    by (simp add: run_def)
qed


lemma switch_sockets:
  assumes "room \<noteq> []" and "currentRoom w \<noteq> Some room"
  shows "length (sockets (fst (connect_start w room))) = length (sockets w)
       \<and> (\<forall>j < length (sockets w).
             written (sockets (fst (connect_start w room)) ! j) = written (sockets w ! j))
       \<and> (\<forall>i. ws w = Some i \<and> i < length (sockets w) \<longrightarrow>
             \<not> onclose (sockets (fst (connect_start w room)) ! i)
             \<and> readyState (sockets (fst (connect_start w room)) ! i) \<noteq> CONNECTING
             \<and> readyState (sockets (fst (connect_start w room)) ! i) \<noteq> OPEN)"
proof -
  have s: "sockets (fst (connect_start w room)) = sockets (disconnect w)"
    by (simp add: connect_start_switch [OF assms])
  have wr: "written (sockets (disconnect w) ! j) = written (sockets w ! j)"
    if "j < length (sockets w)" for j
  proof (cases "ws w")
    case None
    then show ?thesis
      by (simp add: disconnect_def clearRetryAlarm_def Let_def)
  next
    case (Some a)
    then show ?thesis
      using that
      by (cases "j = a")
         (auto simp: disconnect_def clearRetryAlarm_def Let_def close_socket_def)
  qed
  have old: "\<not> onclose (sockets (disconnect w) ! i)
        \<and> readyState (sockets (disconnect w) ! i) \<noteq> CONNECTING
        \<and> readyState (sockets (disconnect w) ! i) \<noteq> OPEN"
    if "ws w = Some i" "i < length (sockets w)" for i
    using close_socket_state [of "(sockets w ! i)\<lparr>onclose := False\<rparr>"]
    by (simp add: disconnect_socket [OF that])
  show ?thesis
    using s wr old disconnect_fields [of w] by simp
qed

lemma after_switch_initial:
  assumes "room \<noteq> []" and "currentRoom w \<noteq> Some room" and "\<forall>r \<in> set P. r = room"
  shows "after_switch room (sockets (fst (connect_start w room))) (step sf (w, P) (Connect room))"
proof -
  have c: "connect_start w room =
        ((disconnect w)\<lparr>currentRoom := Some room, retryCount := 0, authErrorBackoff := False,
                         isConnecting := True, alarm := None\<rparr>, True)"
    using assms(1,2) by (rule connect_start_switch)
  show ?thesis
    using assms(3) by (auto simp: c after_switch_def disconnect_fields)
qed

lemma switch_cancels_prior_cycle:
  assumes "room \<noteq> []" and "currentRoom w \<noteq> Some room" and "\<forall>r \<in> set P. r = room"
    and "\<forall>r. Connect r \<in> set es \<longrightarrow> r = room"
  shows "currentRoom (fst (run sf (step sf (w, P) (Connect room)) es)) = Some room
     \<and> (\<forall>r \<in> set (snd (run sf (step sf (w, P) (Connect room)) es)). r = room)
     \<and> length (sockets w) \<le> length (sockets (fst (run sf (step sf (w, P) (Connect room)) es)))
     \<and> (\<forall>j < length (sockets w).
           written (sockets (fst (run sf (step sf (w, P) (Connect room)) es)) ! j)
             = written (sockets w ! j))
     \<and> (\<forall>j. length (sockets w) \<le> j
             \<and> j < length (sockets (fst (run sf (step sf (w, P) (Connect room)) es))) \<longrightarrow>
           sock_room (sockets (fst (run sf (step sf (w, P) (Connect room)) es)) ! j) = room)
     \<and> (\<forall>j. ws (fst (run sf (step sf (w, P) (Connect room)) es)) = Some j \<longrightarrow>
           length (sockets w) \<le> j
           \<and> j < length (sockets (fst (run sf (step sf (w, P) (Connect room)) es))))
     \<and> (\<forall>i. ws w = Some i \<and> i < length (sockets w) \<longrightarrow>
           \<not> onclose (sockets (fst (run sf (step sf (w, P) (Connect room)) es)) ! i)
           \<and> readyState (sockets (fst (run sf (step sf (w, P) (Connect room)) es)) ! i)
               \<noteq> CONNECTING
           \<and> readyState (sockets (fst (run sf (step sf (w, P) (Connect room)) es)) ! i)
               \<noteq> OPEN)"
proof -
  let ?old = "sockets (fst (connect_start w room))"
  obtain v Q where r: "run sf (step sf (w, P) (Connect room)) es = (v, Q)"
    by (cases "run sf (step sf (w, P) (Connect room)) es")
  have inv: "after_switch room ?old (v, Q)"
    using after_switch_run [OF after_switch_initial [OF assms(1,2,3)] assms(4), of sf] r
    by simp
  note sw = switch_sockets [OF assms(1,2)]
  have len: "length ?old = length (sockets w)" using sw by simp
  have 1: "currentRoom v = Some room" "\<forall>r \<in> set Q. r = room"
    "length (sockets w) \<le> length (sockets v)"
    using inv len by (simp_all add: after_switch_def)
  have 2: "written (sockets v ! j) = written (sockets w ! j)" if "j < length (sockets w)" for j
  proof -
    have "written (sockets v ! j) = written (?old ! j)"
      using inv that len unfolding after_switch_def by auto
    then show ?thesis using sw that by simp
  qed
  have 3: "sock_room (sockets v ! j) = room" if "length (sockets w) \<le> j" "j < length (sockets v)"
    for j
    using inv that len unfolding after_switch_def by auto
  have 4: "length (sockets w) \<le> j \<and> j < length (sockets v)" if "ws v = Some j" for j
    using inv that len unfolding after_switch_def by auto
  have 5: "\<not> onclose (sockets v ! i) \<and> readyState (sockets v ! i) \<noteq> CONNECTING
      \<and> readyState (sockets v ! i) \<noteq> OPEN"
    if "ws w = Some i" "i < length (sockets w)" for i
  proof -
    have a: "\<not> onclose (?old ! i)" "readyState (?old ! i) \<noteq> CONNECTING"
      "readyState (?old ! i) \<noteq> OPEN"
      using sw that by simp_all
    have i: "i < length ?old" using that len by simp
    have "(onclose (sockets v ! i) \<longrightarrow> onclose (?old ! i))
       \<and> (readyState (sockets v ! i) = CONNECTING \<or> readyState (sockets v ! i) = OPEN
             \<longrightarrow> readyState (?old ! i) = CONNECTING \<or> readyState (?old ! i) = OPEN)"
      using inv i unfolding after_switch_def by auto
    then show ?thesis using a by auto
  qed
  show ?thesis
    unfolding r using 1 2 3 4 5 by simp
qed

lemma switched_queue_prefix:
  assumes "room \<noteq> []" and "currentRoom w \<noteq> Some room" and "\<not> falsy_token tr"
  shows "\<exists>n \<le> length (queue w).
       sock_room (sockets (socket_open sf ok
            (connect_resume True (fst (connect_start w room)) room tr)
            (length (sockets w))) ! length (sockets w)) = room
       \<and> written (sockets (socket_open sf ok
            (connect_resume True (fst (connect_start w room)) room tr)
            (length (sockets w))) ! length (sockets w)) = map (the \<circ> sf) (take n (queue w))
       \<and> queue (socket_open sf ok
            (connect_resume True (fst (connect_start w room)) room tr)
            (length (sockets w))) = drop n (queue w)
       \<and> (\<forall>j < n. sf (queue w ! j) \<noteq> None \<and> ok j)
       \<and> (n < length (queue w) \<longrightarrow> sf (queue w ! n) = None \<or> \<not> ok n)"
proof -
  let ?n = "length (sockets w)"
  let ?w1 = "fst (connect_start w room)"
  let ?w2 = "connect_resume True ?w1 room tr"
  have w1: "?w1 = (disconnect w)\<lparr>currentRoom := Some room, retryCount := 0,
                     authErrorBackoff := False, isConnecting := True, alarm := None\<rparr>"
    using assms(1,2) by (simp add: connect_start_switch)
  have len1: "length (sockets ?w1) = ?n"
    by (simp add: w1 disconnect_fields)
  have q1: "queue ?w1 = queue w"
    by (simp add: w1 disconnect_fields)
  have w2: "?w2 = ?w1\<lparr>authErrorBackoff := False,
                sockets := sockets ?w1 @
                  [\<lparr>sock_room = room, sock_token = the (token tr), readyState = CONNECTING,
                    onclose = True, written = []\<rparr>],
                ws := Some ?n\<rparr>"
    using assms(3) by (simp add: connect_resume_def Let_def len1)
  have s2: "sockets ?w2 ! ?n = \<lparr>sock_room = room, sock_token = the (token tr),
               readyState = CONNECTING, onclose = True, written = []\<rparr>"
    using len1 by (simp add: w2 nth_append)
  have len2: "length (sockets ?w2) = Suc ?n"
    using len1 by (simp add: w2)
  have ws2: "ws ?w2 = Some ?n" and q2: "queue ?w2 = queue w"
    using q1 by (simp_all add: w2)
  from flushQueue_loop_prefix [of "queue w" sf ok 0 "[]"] obtain n where n:
    "n \<le> length (queue w)"
    "flushQueue_loop sf ok 0 (queue w) [] = (drop n (queue w), [] @ map (the \<circ> sf) (take n (queue w)))"
    "\<forall>j < n. sf (queue w ! j) \<noteq> None \<and> ok (0 + j)"
    "n < length (queue w) \<longrightarrow> sf (queue w ! n) = None \<or> \<not> ok (0 + n)"
    by blast
  have "sock_room (sockets (socket_open sf ok ?w2 ?n) ! ?n) = room
       \<and> written (sockets (socket_open sf ok ?w2 ?n) ! ?n) = map (the \<circ> sf) (take n (queue w))
       \<and> queue (socket_open sf ok ?w2 ?n) = drop n (queue w)"
    using s2 len2 ws2 q2 n(2)
    by (simp add: socket_open_def flushQueue_def ws_state_def Let_def)
  then show ?thesis
    using n(1,3,4) by auto
qed

text \<open>
  Claim C4, as the code has it. \<^verbatim>\<open>connect\<close> with a room other than the targeted one
  first runs \<^verbatim>\<open>disconnect\<close> (the alarm is cleared, the socket of \<^verbatim>\<open>this.ws\<close> loses its
  close handler, is closed and forgotten), then targets the new room with
  \<^verbatim>\<open>retryCount\<close> 0 and \<^verbatim>\<open>authErrorBackoff\<close> false, and starts an attempt. The queue is not
  touched: when the token arrives and the new room's socket opens, the messages queued
  before the switch are sent on that socket, in order, up to the first one that cannot
  be serialized or transmitted. When every call of \<^verbatim>\<open>connect\<close> that is waiting at the
  switch is for the new room, then after any events that follow, with no call of
  \<^verbatim>\<open>connect\<close> for another room among them: the new room is targeted, every waiting call
  of \<^verbatim>\<open>connect\<close> is for it, nothing more was written to the sockets of before the switch,
  every socket created since is for the new room, \<^verbatim>\<open>this.ws\<close> is null or one of those,
  and the socket that was \<^verbatim>\<open>this.ws\<close> at the switch has no close handler and is neither
  connecting nor open. An alarm that fires calls \<^verbatim>\<open>connect\<close> for the room targeted at
  that moment. \<^verbatim>\<open>connect\<close> with the targeted room and an open socket changes nothing.
\<close>

theorem room_switch_tears_down:
  "(room \<noteq> [] \<and> currentRoom w \<noteq> Some room \<longrightarrow>
      connect_start w room =
        ((disconnect w)\<lparr>currentRoom := Some room, retryCount := 0, authErrorBackoff := False,
                         isConnecting := True, alarm := None\<rparr>, True)
      \<and> ws (fst (connect_start w room)) = None
      \<and> alarm (fst (connect_start w room)) = None
      \<and> retryCount (fst (connect_start w room)) = 0
      \<and> \<not> authErrorBackoff (fst (connect_start w room))
      \<and> currentRoom (fst (connect_start w room)) = Some room
      \<and> queue (fst (connect_start w room)) = queue w
      \<and> (\<forall>i. ws w = Some i \<and> i < length (sockets w) \<longrightarrow>
            \<not> onclose (sockets (fst (connect_start w room)) ! i)
            \<and> readyState (sockets (fst (connect_start w room)) ! i) \<noteq> CONNECTING
            \<and> readyState (sockets (fst (connect_start w room)) ! i) \<noteq> OPEN))
   \<and> (room \<noteq> [] \<and> currentRoom w \<noteq> Some room \<and> \<not> falsy_token tr \<longrightarrow>
        (\<exists>n \<le> length (queue w).
           sock_room (sockets (socket_open stringify send_ok
               (connect_resume True (fst (connect_start w room)) room tr)
               (length (sockets w))) ! length (sockets w)) = room
           \<and> written (sockets (socket_open stringify send_ok
               (connect_resume True (fst (connect_start w room)) room tr)
               (length (sockets w))) ! length (sockets w))
               = map (the \<circ> stringify) (take n (queue w))
           \<and> queue (socket_open stringify send_ok
               (connect_resume True (fst (connect_start w room)) room tr)
               (length (sockets w))) = drop n (queue w)
           \<and> (\<forall>j < n. stringify (queue w ! j) \<noteq> None \<and> send_ok j)
           \<and> (n < length (queue w) \<longrightarrow> stringify (queue w ! n) = None \<or> \<not> send_ok n)))
   \<and> (room \<noteq> [] \<and> currentRoom w \<noteq> Some room \<and> (\<forall>r \<in> set waiting. r = room)
        \<and> (\<forall>r. Connect r \<in> set events \<longrightarrow> r = room) \<longrightarrow>
        currentRoom (fst (run stringify (step stringify (w, waiting) (Connect room)) events)) = Some room
        \<and> (\<forall>r \<in> set (snd (run stringify (step stringify (w, waiting) (Connect room)) events)). r = room)
        \<and> length (sockets w) \<le> length (sockets (fst (run stringify (step stringify (w, waiting) (Connect room)) events)))
        \<and> (\<forall>j < length (sockets w).
              written (sockets (fst (run stringify (step stringify (w, waiting) (Connect room)) events)) ! j) = written (sockets w ! j))
        \<and> (\<forall>j. length (sockets w) \<le> j \<and> j < length (sockets (fst (run stringify (step stringify (w, waiting) (Connect room)) events))) \<longrightarrow>
              sock_room (sockets (fst (run stringify (step stringify (w, waiting) (Connect room)) events)) ! j) = room)
        \<and> (\<forall>j. ws (fst (run stringify (step stringify (w, waiting) (Connect room)) events)) = Some j \<longrightarrow>
              length (sockets w) \<le> j \<and> j < length (sockets (fst (run stringify (step stringify (w, waiting) (Connect room)) events))))
        \<and> (\<forall>i. ws w = Some i \<and> i < length (sockets w) \<longrightarrow>
              \<not> onclose (sockets (fst (run stringify (step stringify (w, waiting) (Connect room)) events)) ! i)
              \<and> readyState (sockets (fst (run stringify (step stringify (w, waiting) (Connect room)) events)) ! i) \<noteq> CONNECTING
              \<and> readyState (sockets (fst (run stringify (step stringify (w, waiting) (Connect room)) events)) ! i) \<noteq> OPEN))
   \<and> (currentRoom v = Some r \<longrightarrow>
        onAlarm v RETRY_ALARM_NAME = connect_start (v\<lparr>alarm := None\<rparr>) r)
   \<and> (currentRoom w = Some room \<and> ws_state w = Some OPEN \<longrightarrow> connect_start w room = (w, False))"
proof -
  have sw: "connect_start w room =
        ((disconnect w)\<lparr>currentRoom := Some room, retryCount := 0, authErrorBackoff := False,
                         isConnecting := True, alarm := None\<rparr>, True)"
    if "room \<noteq> []" "currentRoom w \<noteq> Some room"
    using that by (rule connect_start_switch)
  have fields: "ws (fst (connect_start w room)) = None
      \<and> alarm (fst (connect_start w room)) = None
      \<and> retryCount (fst (connect_start w room)) = 0
      \<and> \<not> authErrorBackoff (fst (connect_start w room))
      \<and> currentRoom (fst (connect_start w room)) = Some room
      \<and> queue (fst (connect_start w room)) = queue w"
    if "room \<noteq> []" "currentRoom w \<noteq> Some room"
    by (simp add: sw [OF that] disconnect_fields)
  have old: "\<not> onclose (sockets (fst (connect_start w room)) ! i)
            \<and> readyState (sockets (fst (connect_start w room)) ! i) \<noteq> CONNECTING
            \<and> readyState (sockets (fst (connect_start w room)) ! i) \<noteq> OPEN"
    if "room \<noteq> []" "currentRoom w \<noteq> Some room" "ws w = Some i" "i < length (sockets w)" for i
    using switch_sockets [OF that(1,2)] that(3,4) by simp
  have A: "room \<noteq> [] \<and> currentRoom w \<noteq> Some room \<longrightarrow>
      connect_start w room =
        ((disconnect w)\<lparr>currentRoom := Some room, retryCount := 0, authErrorBackoff := False,
                         isConnecting := True, alarm := None\<rparr>, True)
      \<and> ws (fst (connect_start w room)) = None
      \<and> alarm (fst (connect_start w room)) = None
      \<and> retryCount (fst (connect_start w room)) = 0
      \<and> \<not> authErrorBackoff (fst (connect_start w room))
      \<and> currentRoom (fst (connect_start w room)) = Some room
      \<and> queue (fst (connect_start w room)) = queue w
      \<and> (\<forall>i. ws w = Some i \<and> i < length (sockets w) \<longrightarrow>
            \<not> onclose (sockets (fst (connect_start w room)) ! i)
            \<and> readyState (sockets (fst (connect_start w room)) ! i) \<noteq> CONNECTING
            \<and> readyState (sockets (fst (connect_start w room)) ! i) \<noteq> OPEN)"
    using sw fields old by blast
  have B: "room \<noteq> [] \<and> currentRoom w \<noteq> Some room \<and> \<not> falsy_token tr \<longrightarrow>
        (\<exists>n \<le> length (queue w).
           sock_room (sockets (socket_open stringify send_ok
               (connect_resume True (fst (connect_start w room)) room tr)
               (length (sockets w))) ! length (sockets w)) = room
           \<and> written (sockets (socket_open stringify send_ok
               (connect_resume True (fst (connect_start w room)) room tr)
               (length (sockets w))) ! length (sockets w))
               = map (the \<circ> stringify) (take n (queue w))
           \<and> queue (socket_open stringify send_ok
               (connect_resume True (fst (connect_start w room)) room tr)
               (length (sockets w))) = drop n (queue w)
           \<and> (\<forall>j < n. stringify (queue w ! j) \<noteq> None \<and> send_ok j)
           \<and> (n < length (queue w) \<longrightarrow> stringify (queue w ! n) = None \<or> \<not> send_ok n))"
  proof (intro impI)
    assume h: "room \<noteq> [] \<and> currentRoom w \<noteq> Some room \<and> \<not> falsy_token tr"
    then have h1: "room \<noteq> []" and h2: "currentRoom w \<noteq> Some room" and h3: "\<not> falsy_token tr"
      by simp_all
    show "\<exists>n \<le> length (queue w).
           sock_room (sockets (socket_open stringify send_ok
               (connect_resume True (fst (connect_start w room)) room tr)
               (length (sockets w))) ! length (sockets w)) = room
           \<and> written (sockets (socket_open stringify send_ok
               (connect_resume True (fst (connect_start w room)) room tr)
               (length (sockets w))) ! length (sockets w))
               = map (the \<circ> stringify) (take n (queue w))
           \<and> queue (socket_open stringify send_ok
               (connect_resume True (fst (connect_start w room)) room tr)
               (length (sockets w))) = drop n (queue w)
           \<and> (\<forall>j < n. stringify (queue w ! j) \<noteq> None \<and> send_ok j)
           \<and> (n < length (queue w) \<longrightarrow> stringify (queue w ! n) = None \<or> \<not> send_ok n)"
      using h1 h2 h3 by (rule switched_queue_prefix)
  qed
  have C: "room \<noteq> [] \<and> currentRoom w \<noteq> Some room \<and> (\<forall>r \<in> set waiting. r = room)
        \<and> (\<forall>r. Connect r \<in> set events \<longrightarrow> r = room) \<longrightarrow>
        currentRoom (fst (run stringify (step stringify (w, waiting) (Connect room)) events)) = Some room
        \<and> (\<forall>r \<in> set (snd (run stringify (step stringify (w, waiting) (Connect room)) events)). r = room)
        \<and> length (sockets w) \<le> length (sockets (fst (run stringify (step stringify (w, waiting) (Connect room)) events)))
        \<and> (\<forall>j < length (sockets w).
              written (sockets (fst (run stringify (step stringify (w, waiting) (Connect room)) events)) ! j) = written (sockets w ! j))
        \<and> (\<forall>j. length (sockets w) \<le> j \<and> j < length (sockets (fst (run stringify (step stringify (w, waiting) (Connect room)) events))) \<longrightarrow>
              sock_room (sockets (fst (run stringify (step stringify (w, waiting) (Connect room)) events)) ! j) = room)
        \<and> (\<forall>j. ws (fst (run stringify (step stringify (w, waiting) (Connect room)) events)) = Some j \<longrightarrow>
              length (sockets w) \<le> j \<and> j < length (sockets (fst (run stringify (step stringify (w, waiting) (Connect room)) events))))
        \<and> (\<forall>i. ws w = Some i \<and> i < length (sockets w) \<longrightarrow>
              \<not> onclose (sockets (fst (run stringify (step stringify (w, waiting) (Connect room)) events)) ! i)
              \<and> readyState (sockets (fst (run stringify (step stringify (w, waiting) (Connect room)) events)) ! i) \<noteq> CONNECTING
              \<and> readyState (sockets (fst (run stringify (step stringify (w, waiting) (Connect room)) events)) ! i) \<noteq> OPEN)"
  proof (intro impI)
    assume h: "room \<noteq> [] \<and> currentRoom w \<noteq> Some room \<and> (\<forall>r \<in> set waiting. r = room)
        \<and> (\<forall>r. Connect r \<in> set events \<longrightarrow> r = room)"
    then have h1: "room \<noteq> []" and h2: "currentRoom w \<noteq> Some room"
      and h3: "\<forall>r \<in> set waiting. r = room"
      and h4: "\<forall>r. Connect r \<in> set events \<longrightarrow> r = room"
      by simp_all
    show "currentRoom (fst (run stringify (step stringify (w, waiting) (Connect room)) events)) = Some room
        \<and> (\<forall>r \<in> set (snd (run stringify (step stringify (w, waiting) (Connect room)) events)). r = room)
        \<and> length (sockets w) \<le> length (sockets (fst (run stringify (step stringify (w, waiting) (Connect room)) events)))
        \<and> (\<forall>j < length (sockets w).
              written (sockets (fst (run stringify (step stringify (w, waiting) (Connect room)) events)) ! j) = written (sockets w ! j))
        \<and> (\<forall>j. length (sockets w) \<le> j \<and> j < length (sockets (fst (run stringify (step stringify (w, waiting) (Connect room)) events))) \<longrightarrow>
              sock_room (sockets (fst (run stringify (step stringify (w, waiting) (Connect room)) events)) ! j) = room)
        \<and> (\<forall>j. ws (fst (run stringify (step stringify (w, waiting) (Connect room)) events)) = Some j \<longrightarrow>
              length (sockets w) \<le> j \<and> j < length (sockets (fst (run stringify (step stringify (w, waiting) (Connect room)) events))))
        \<and> (\<forall>i. ws w = Some i \<and> i < length (sockets w) \<longrightarrow>
              \<not> onclose (sockets (fst (run stringify (step stringify (w, waiting) (Connect room)) events)) ! i)
              \<and> readyState (sockets (fst (run stringify (step stringify (w, waiting) (Connect room)) events)) ! i) \<noteq> CONNECTING
              \<and> readyState (sockets (fst (run stringify (step stringify (w, waiting) (Connect room)) events)) ! i) \<noteq> OPEN)"
      using h1 h2 h3 h4 by (rule switch_cancels_prior_cycle)
  qed
  have D: "currentRoom v = Some r \<longrightarrow>
        onAlarm v RETRY_ALARM_NAME = connect_start (v\<lparr>alarm := None\<rparr>) r"
    by (simp add: onAlarm_current)
  have E: "currentRoom w = Some room \<and> ws_state w = Some OPEN \<longrightarrow> connect_start w room = (w, False)"
    by (simp add: connect_start_open_same)
  show ?thesis
    by (intro conjI) (rule A, rule B, rule C, rule D, rule E)
qed

lemmas hub_eval = new_publisher_def connect_start_def connect_resume_def disconnect_def
  clearRetryAlarm_def close_socket_def ws_state_def scheduleRetry_def retry_backoff_eq
  fetchHubToken_def falsy_token_def publish_def enqueue_def ws_send_def socket_open_def
  socket_close_def socket_error_def onerror_def flushQueue_def onAlarm_def MAX_RETRIES_def
  QUEUE_CAP_def RETRY_ALARM_NAME_def AUTH_ERROR_BACKOFF_MS_def Let_def

lemmas loop_eval = run_def hub_eval

theorem room_switch_tears_down_witness:
  "fst (connect_start
      ((new_publisher :: string publisher)\<lparr>ws := Some 0, currentRoom := Some ''old'',
          retryCount := 3, alarm := Some 4000, queue := [''m''],
          sockets := [\<lparr>sock_room = ''old'', sock_token = ''t'', readyState = CONNECTING,
                       onclose = True, written = []\<rparr>]\<rparr>) ''new'')
   = (new_publisher :: string publisher)\<lparr>currentRoom := Some ''new'', isConnecting := True,
        queue := [''m''],
        sockets := [\<lparr>sock_room = ''old'', sock_token = ''t'', readyState = CLOSING,
                     onclose = False, written = []\<rparr>]\<rparr>
   \<and> run Some (step Some ((new_publisher :: string publisher)\<lparr>ws := Some 0, currentRoom := Some ''old'',
          retryCount := 3, alarm := Some 4000, queue := [''m''],
          sockets := [\<lparr>sock_room = ''old'', sock_token = ''t'', readyState = CONNECTING,
                       onclose = True, written = []\<rparr>]\<rparr>, []) (Connect ''new''))
       [TokenArrives 0 \<lparr>token = Some ''jwt'', isAuthError = False\<rparr> True,
        SocketOpens 1 (\<lambda>k. True), SocketErrors 0, AlarmFires, Publish ''n'' True]
     = ((new_publisher :: string publisher)\<lparr>ws := Some 1, currentRoom := Some ''new'',
          sockets := [\<lparr>sock_room = ''old'', sock_token = ''t'', readyState = CLOSED,
                       onclose = False, written = []\<rparr>,
                      \<lparr>sock_room = ''new'', sock_token = ''jwt'', readyState = OPEN,
                       onclose = True, written = [''m'', ''n'']\<rparr>]\<rparr>, [])
   \<and> connect_start
      ((new_publisher :: string publisher)\<lparr>ws := Some 0, currentRoom := Some ''old'',
          sockets := [\<lparr>sock_room = ''old'', sock_token = ''t'', readyState = OPEN,
                       onclose = True, written = []\<rparr>]\<rparr>) ''old''
     = ((new_publisher :: string publisher)\<lparr>ws := Some 0, currentRoom := Some ''old'',
          sockets := [\<lparr>sock_room = ''old'', sock_token = ''t'', readyState = OPEN,
                       onclose = True, written = []\<rparr>]\<rparr>, False)"
  using room_switch_tears_down
    [where room = "''new''"
       and w = "(new_publisher :: string publisher)\<lparr>ws := Some 0, currentRoom := Some ''old'',
          retryCount := 3, alarm := Some 4000, queue := [''m''],
          sockets := [\<lparr>sock_room = ''old'', sock_token = ''t'', readyState = CONNECTING,
                       onclose = True, written = []\<rparr>]\<rparr>"
       and tr = "\<lparr>token = Some ''jwt'', isAuthError = False\<rparr>"
       and stringify = Some and send_ok = "\<lambda>k. True" and waiting = "[]"
       and events = "[TokenArrives 0 \<lparr>token = Some ''jwt'', isAuthError = False\<rparr> True,
        SocketOpens 1 (\<lambda>k. True), SocketErrors 0, AlarmFires, Publish ''n'' True]"
       and v = "(new_publisher :: string publisher)\<lparr>currentRoom := Some ''new''\<rparr>"
       and r = "''new''"]
    room_switch_tears_down
    [where room = "''old''"
       and w = "(new_publisher :: string publisher)\<lparr>ws := Some 0, currentRoom := Some ''old'',
          sockets := [\<lparr>sock_room = ''old'', sock_token = ''t'', readyState = OPEN,
                       onclose = True, written = []\<rparr>]\<rparr>"
       and tr = "\<lparr>token = Some ''jwt'', isAuthError = False\<rparr>"
       and stringify = Some and send_ok = "\<lambda>k. True" and waiting = "[]"
       and events = "[] :: string event list"
       and v = "(new_publisher :: string publisher)\<lparr>currentRoom := Some ''old''\<rparr>"
       and r = "''old''"]
  by (simp add: loop_eval)

text \<open>
  From a new publisher: \<^verbatim>\<open>connect("old")\<close> fails on the network and schedules a retry; a
  message is published and, with no socket, queued; \<^verbatim>\<open>connect("new")\<close> switches the room,
  gets a token and opens socket 0, to the room \<^verbatim>\<open>"new"\<close>. The message queued while
  \<^verbatim>\<open>"old"\<close> was targeted is written to that socket. And from a new publisher:
  \<^verbatim>\<open>connect("r1")\<close> is waiting for its token when \<^verbatim>\<open>connect("r2")\<close> switches the room; a
  message is published and queued; the token of \<^verbatim>\<open>"r1"\<close> arrives and the socket of
  \<^verbatim>\<open>"r1"\<close> is created and opens: \<^verbatim>\<open>"r2"\<close> is targeted, \<^verbatim>\<open>this.ws\<close> is the socket of \<^verbatim>\<open>"r1"\<close>,
  and the message is written to it.
\<close>

theorem room_switch_tears_down_counterexample:
  "currentRoom (publish Some True
        (connect_resume True (fst (connect_start (new_publisher :: string publisher) ''old''))
           ''old'' (fetchHubToken FetchThrows))
        ''hand seen at old'') = Some ''old''
   \<and> queue (publish Some True
        (connect_resume True (fst (connect_start (new_publisher :: string publisher) ''old''))
           ''old'' (fetchHubToken FetchThrows))
        ''hand seen at old'') = [''hand seen at old'']
   \<and> sockets (socket_open Some (\<lambda>k. True)
        (connect_resume True
           (fst (connect_start
              (publish Some True
                 (connect_resume True
                    (fst (connect_start (new_publisher :: string publisher) ''old''))
                    ''old'' (fetchHubToken FetchThrows))
                 ''hand seen at old'')
              ''new''))
           ''new'' (fetchHubToken (Response 200 (Some ''jwt''))))
        0)
     = [\<lparr>sock_room = ''new'', sock_token = ''jwt'', readyState = OPEN, onclose = True,
         written = [''hand seen at old'']\<rparr>]
   \<and> run Some (new_publisher :: string publisher, [])
        [Connect ''r1'', Connect ''r2'', Publish ''hand seen at r2'' True,
         TokenArrives 0 (fetchHubToken (Response 200 (Some ''jwt1''))) True,
         SocketOpens 0 (\<lambda>k. True)]
     = ((new_publisher :: string publisher)\<lparr>ws := Some 0, currentRoom := Some ''r2'',
          sockets := [\<lparr>sock_room = ''r1'', sock_token = ''jwt1'', readyState = OPEN,
                       onclose = True, written = [''hand seen at r2'']\<rparr>]\<rparr>, [''r2''])"
  by (simp add: loop_eval)

section \<open>Deliberate disconnect and the calls of connect still waiting\<close>

text \<open>
  Claim C8, at the input where the code departs from it. \<^verbatim>\<open>connect("r1")\<close> is waiting
  for its token when \<^verbatim>\<open>connect("r2")\<close> runs \<^verbatim>\<open>disconnect()\<close>: no alarm is left, no retry
  is counted, and both calls are waiting. Then the token request of \<^verbatim>\<open>"r1"\<close> is answered
  with status 500: the call for \<^verbatim>\<open>"r1"\<close> resumes, sets \<^verbatim>\<open>isConnecting\<close> to false and calls
  \<^verbatim>\<open>scheduleRetry\<close>, so that a retry is counted and the alarm is created, with 1000 ms,
  while \<^verbatim>\<open>"r2"\<close> is targeted and its call is still waiting. When the alarm fires,
  \<^verbatim>\<open>connect\<close> starts a second attempt for \<^verbatim>\<open>"r2"\<close> beside the first. The same happens when
  \<^verbatim>\<open>disconnect()\<close> alone is run while \<^verbatim>\<open>connect("r1")\<close> is waiting.
\<close>

theorem stale_connect_retries_after_disconnect:
  "run Some (new_publisher :: string publisher, []) [Connect ''r1'', Connect ''r2'']
     = ((new_publisher :: string publisher)\<lparr>currentRoom := Some ''r2'', isConnecting := True\<rparr>,
        [''r1'', ''r2''])
   \<and> run Some (new_publisher :: string publisher, [])
        [Connect ''r1'', Connect ''r2'', TokenArrives 0 (fetchHubToken (Response 500 None)) True]
     = ((new_publisher :: string publisher)\<lparr>currentRoom := Some ''r2'', retryCount := 1,
          alarm := Some 1000\<rparr>, [''r2''])
   \<and> run Some (new_publisher :: string publisher, [])
        [Connect ''r1'', Connect ''r2'', TokenArrives 0 (fetchHubToken (Response 500 None)) True,
         AlarmFires]
     = ((new_publisher :: string publisher)\<lparr>currentRoom := Some ''r2'', retryCount := 1,
          isConnecting := True\<rparr>, [''r2'', ''r2''])
   \<and> alarm (disconnect (fst (connect_start (new_publisher :: string publisher) ''r1''))) = None
   \<and> connect_resume True
        (disconnect (fst (connect_start (new_publisher :: string publisher) ''r1'')))
        ''r1'' (fetchHubToken (Response 500 None))
     = (new_publisher :: string publisher)\<lparr>currentRoom := Some ''r1'', retryCount := 1,
          alarm := Some 1000\<rparr>"
  by (simp add: loop_eval)

end
